theory Spec2Isabelle
  imports Main "HOL-Library.Word" "HOL-Library.Code_Target_Numeral"
begin

section \<open>Values, errors and field descriptors\<close>

text \<open>
  The Python values that can sit in a field or come out of the \<^verbatim>\<open>struct\<close> library.
  A float is kept as the format code and the bytes it was decoded from.
\<close>

type_synonym byte = "8 word"

datatype pyval =
    PNone
  | PInt int
  | PBool bool
  | PBytes "byte list"
  | PStr string
  | PFloat char "byte list"

text \<open>
  The exceptions of the program. \<open>NameError\<close> carries the attribute name, \<open>ValueError\<close>
  the message of the source; \<open>StructError\<close> is \<^verbatim>\<open>struct.error\<close>. \<open>NotModelled\<close> marks
  the corners of the \<^verbatim>\<open>struct\<close> library left outside this development (byte orders other
  than \<^verbatim>\<open><\<close>, conversion of an integer to a float).
\<close>

datatype error =
    NameError string
  | ValueError string
  | StructError
  | TypeError
  | SystemError
  | UnicodeEncodeError
  | NotModelled

text \<open>The dataclass \<^verbatim>\<open>DynamicStructField\<close> of \<^verbatim>\<open>schemas.py\<close>.\<close>

record DynamicStructField =
  name_f :: string
  struct_f :: string
  length_f :: int
  default_f :: pyval
  value_f :: pyval
  match_length_f :: bool

text \<open>The constructor with the defaults of the dataclass.\<close>

definition new_field :: "string \<Rightarrow> DynamicStructField" where
  "new_field n = \<lparr>name_f = n, struct_f = ''B'', length_f = 1, default_f = PInt 0,
     value_f = PNone, match_length_f = False\<rparr>"

text \<open>Python truthiness, as used by \<^verbatim>\<open>value or default\<close>.\<close>

fun truthy :: "pyval \<Rightarrow> bool" where
  "truthy PNone = False"
| "truthy (PInt i) = (i \<noteq> 0)"
| "truthy (PBool b) = b"
| "truthy (PBytes bs) = (bs \<noteq> [])"
| "truthy (PStr s) = (s \<noteq> [])"
| "truthy (PFloat c bs) = (\<not> (list_all (\<lambda>b. b = 0) (butlast bs) \<and> take_bit 7 (last bs) = 0))"

definition py_or :: "pyval \<Rightarrow> pyval \<Rightarrow> pyval" where
  "py_or x y = (if truthy x then x else y)"

fun py_len :: "pyval \<Rightarrow> error + int" where
  "py_len (PBytes bs) = Inr (int (length bs))"
| "py_len (PStr s) = Inr (int (length s))"
| "py_len v = Inl TypeError"

text \<open>No value of \<open>pyval\<close> is callable.\<close>

definition py_call :: "pyval \<Rightarrow> error + unit" where
  "py_call v = Inl TypeError"

section \<open>The object store\<close>

text \<open>
  Field descriptors are mutable objects: the class-level template list and the
  per-instance dictionaries hold references to them. The store maps an address to the
  descriptor living there; \<open>next_free\<close> is the next unused address.
\<close>

type_synonym addr = nat

record store =
  cells :: "addr \<Rightarrow> DynamicStructField"
  next_free :: addr

definition alloc :: "DynamicStructField \<Rightarrow> store \<Rightarrow> addr \<times> store" where
  "alloc f s = (next_free s, s\<lparr>cells := (cells s)(next_free s := f), next_free := Suc (next_free s)\<rparr>)"

text \<open>\<^verbatim>\<open>dataclasses.replace(k)\<close> with no changes: a new object with the attributes of \<open>k\<close>.\<close>

definition replace :: "addr \<Rightarrow> store \<Rightarrow> addr \<times> store" where
  "replace k s = alloc (cells s k) s"

definition upd_cell :: "addr \<Rightarrow> (DynamicStructField \<Rightarrow> DynamicStructField) \<Rightarrow> store \<Rightarrow> store" where
  "upd_cell a g s = s\<lparr>cells := (cells s)(a := g (cells s a))\<rparr>"

text \<open>An \<^verbatim>\<open>OrderedDict\<close> from field name to descriptor reference.\<close>

type_synonym odict = "(string \<times> addr) list"

fun od_set :: "string \<Rightarrow> addr \<Rightarrow> odict \<Rightarrow> odict" where
  "od_set k v [] = [(k, v)]"
| "od_set k v ((k', v') # d) = (if k = k' then (k, v) # d else (k', v') # od_set k v d)"

section \<open>The struct library, little-endian standard mode\<close>

text \<open>Python renders an integer in decimal, with a minus sign when negative.\<close>

definition digit_char :: "nat \<Rightarrow> char" where
  "digit_char d = char_of (48 + d)"

fun str_nat :: "nat \<Rightarrow> string" where
  "str_nat n = (if n < 10 then [digit_char n] else str_nat (n div 10) @ [digit_char (n mod 10)])"

declare str_nat.simps [simp del]

definition str_int :: "int \<Rightarrow> string" where
  "str_int i = (if i < 0 then CHR ''-'' # str_nat (nat (- i)) else str_nat (nat i))"

definition is_digit :: "char \<Rightarrow> bool" where
  "is_digit c = (48 \<le> (of_char c :: nat) \<and> (of_char c :: nat) \<le> 57)"

definition digit_val :: "char \<Rightarrow> nat" where
  "digit_val c = of_char c - 48"

definition is_space :: "char \<Rightarrow> bool" where
  "is_space c = ((of_char c :: nat) = 32 \<or> (9 \<le> (of_char c :: nat) \<and> (of_char c :: nat) \<le> 13))"

text \<open>The format codes of the \<^verbatim>\<open><\<close> table with the size of one unit.\<close>

definition code_table :: "(char \<times> nat) list" where
  "code_table =
    [(CHR ''x'', 1), (CHR ''c'', 1), (CHR ''b'', 1), (CHR ''B'', 1), (CHR ''?'', 1),
     (CHR ''h'', 2), (CHR ''H'', 2), (CHR ''i'', 4), (CHR ''I'', 4), (CHR ''l'', 4),
     (CHR ''L'', 4), (CHR ''q'', 8), (CHR ''Q'', 8), (CHR ''e'', 2), (CHR ''f'', 4),
     (CHR ''d'', 8), (CHR ''s'', 1), (CHR ''p'', 1)]"

definition code_size :: "char \<Rightarrow> nat option" where
  "code_size c = map_of code_table c"

definition unit_size :: "char \<Rightarrow> nat" where
  "unit_size c = (case code_size c of Some k \<Rightarrow> k | None \<Rightarrow> 0)"

text \<open>
  The scanner of a format after its byte-order character: white space between items is
  skipped, a run of digits is the repeat count of the code that follows it, a count with
  no code after it and a character that is no code are errors. The first argument is the
  count read so far.
\<close>

fun parse_fmt :: "nat option \<Rightarrow> string \<Rightarrow> error + (nat \<times> char) list" where
  "parse_fmt None [] = Inr []"
| "parse_fmt (Some n) [] = Inl StructError"
| "parse_fmt acc (c # cs) =
     (if is_digit c then
        parse_fmt (Some (10 * (case acc of None \<Rightarrow> 0 | Some n \<Rightarrow> n) + digit_val c)) cs
      else if acc = None \<and> is_space c then parse_fmt None cs
      else if code_size c = None then Inl StructError
      else (case parse_fmt None cs of
              Inl e \<Rightarrow> Inl e
            | Inr ts \<Rightarrow> Inr ((case acc of None \<Rightarrow> 1 | Some n \<Rightarrow> n, c) # ts)))"

definition total_size :: "(nat \<times> char) list \<Rightarrow> nat" where
  "total_size ts = sum_list (map (\<lambda>(n, c). n * unit_size c) ts)"

definition PY_SSIZE_T_MAX :: nat where
  "PY_SSIZE_T_MAX = 2 ^ 63 - 1"

text \<open>
  Compiling a format: it must be ASCII, start with \<^verbatim>\<open><\<close> (the only mode modelled), scan,
  and describe at most \<open>PY_SSIZE_T_MAX\<close> bytes.
\<close>

definition prepare :: "string \<Rightarrow> error + (nat \<times> char) list" where
  "prepare fmt =
     (if \<exists>c \<in> set fmt. 128 \<le> (of_char c :: nat) then Inl UnicodeEncodeError
      else (case fmt of
              [] \<Rightarrow> Inl NotModelled
            | c # cs \<Rightarrow>
                if c \<noteq> CHR ''<'' then Inl NotModelled
                else (case parse_fmt None cs of
                        Inl e \<Rightarrow> Inl e
                      | Inr ts \<Rightarrow> if PY_SSIZE_T_MAX < total_size ts then Inl StructError else Inr ts)))"

definition calcsize :: "string \<Rightarrow> error + nat" where
  "calcsize fmt = (case prepare fmt of Inl e \<Rightarrow> Inl e | Inr ts \<Rightarrow> Inr (total_size ts))"

subsection \<open>Decoding\<close>

fun le_uint :: "byte list \<Rightarrow> int" where
  "le_uint [] = 0"
| "le_uint (b # bs) = uint b + 256 * le_uint bs"

definition le_sint :: "byte list \<Rightarrow> int" where
  "le_sint bs = (let u = le_uint bs in
     if 2 ^ (8 * length bs - 1) \<le> u then u - 2 ^ (8 * length bs) else u)"

definition unpack_unit :: "char \<Rightarrow> byte list \<Rightarrow> pyval" where
  "unpack_unit c bs =
     (if c = CHR ''c'' then PBytes bs
      else if c = CHR ''?'' then PBool (\<exists>b \<in> set bs. b \<noteq> 0)
      else if c \<in> set ''bhilq'' then PInt (le_sint bs)
      else if c \<in> set ''BHILQ'' then PInt (le_uint bs)
      else PFloat c bs)"

fun split_units :: "nat \<Rightarrow> nat \<Rightarrow> byte list \<Rightarrow> byte list list" where
  "split_units 0 k bs = []"
| "split_units (Suc n) k bs = take k bs # split_units n k (drop k bs)"

text \<open>
  The values one item \<open>(n, c)\<close> decodes from its bytes: none for padding, one byte string
  for \<^verbatim>\<open>s\<close> and \<^verbatim>\<open>p\<close> whatever the count, \<open>n\<close> values for every other code.
  A \<^verbatim>\<open>p\<close> item of count 0 is a \<^verbatim>\<open>SystemError\<close> in CPython 3.11.
\<close>

definition item_values :: "nat \<Rightarrow> char \<Rightarrow> byte list \<Rightarrow> error + pyval list" where
  "item_values n c chunk =
     (if c = CHR ''x'' then Inr []
      else if c = CHR ''s'' then Inr [PBytes chunk]
      else if c = CHR ''p'' then
        (case chunk of
           [] \<Rightarrow> Inl SystemError
         | b # bs \<Rightarrow> Inr [PBytes (take (min (unat b) (n - 1)) bs)])
      else Inr (map (unpack_unit c) (split_units n (unit_size c) chunk)))"

fun unpack_codes :: "(nat \<times> char) list \<Rightarrow> byte list \<Rightarrow> error + pyval list" where
  "unpack_codes [] buf = Inr []"
| "unpack_codes ((n, c) # ts) buf =
     (case item_values n c (take (n * unit_size c) buf) of
        Inl e \<Rightarrow> Inl e
      | Inr vs \<Rightarrow>
          (case unpack_codes ts (drop (n * unit_size c) buf) of
             Inl e \<Rightarrow> Inl e
           | Inr ws \<Rightarrow> Inr (vs @ ws)))"

definition struct_unpack :: "string \<Rightarrow> byte list \<Rightarrow> error + pyval list" where
  "struct_unpack fmt buf =
     (case prepare fmt of
        Inl e \<Rightarrow> Inl e
      | Inr ts \<Rightarrow> if total_size ts \<noteq> length buf then Inl StructError else unpack_codes ts buf)"

subsection \<open>Encoding\<close>

fun le_bytes :: "nat \<Rightarrow> int \<Rightarrow> byte list" where
  "le_bytes 0 i = []"
| "le_bytes (Suc k) i = word_of_int i # le_bytes k (i div 256)"

text \<open>An integer argument is an \<^verbatim>\<open>int\<close> or a \<^verbatim>\<open>bool\<close>.\<close>

fun py_index :: "pyval \<Rightarrow> int option" where
  "py_index (PInt i) = Some i"
| "py_index (PBool b) = Some (if b then 1 else 0)"
| "py_index v = None"

definition pack_unit :: "char \<Rightarrow> pyval \<Rightarrow> error + byte list" where
  "pack_unit c v =
     (if c = CHR ''c'' then
        (case v of PBytes [b] \<Rightarrow> Inr [b] | _ \<Rightarrow> Inl StructError)
      else if c = CHR ''?'' then Inr [if truthy v then 1 else 0]
      else if c \<in> set ''bhilq'' then
        (case py_index v of
           None \<Rightarrow> Inl StructError
         | Some i \<Rightarrow>
             if - (2 ^ (8 * unit_size c - 1)) \<le> i \<and> i < 2 ^ (8 * unit_size c - 1)
             then Inr (le_bytes (unit_size c) i) else Inl StructError)
      else if c \<in> set ''BHILQ'' then
        (case py_index v of
           None \<Rightarrow> Inl StructError
         | Some i \<Rightarrow>
             if 0 \<le> i \<and> i < 2 ^ (8 * unit_size c)
             then Inr (le_bytes (unit_size c) i) else Inl StructError)
      else
        (case v of
           PFloat c' bs \<Rightarrow> if c' = c then Inr bs else Inl NotModelled
         | PInt i \<Rightarrow> Inl NotModelled
         | PBool b \<Rightarrow> Inl NotModelled
         | _ \<Rightarrow> Inl StructError))"

definition pad_to :: "nat \<Rightarrow> byte list \<Rightarrow> byte list" where
  "pad_to n bs = take n bs @ replicate (n - length bs) 0"

fun pack_units :: "char \<Rightarrow> pyval list \<Rightarrow> error + byte list" where
  "pack_units c [] = Inr []"
| "pack_units c (v # vs) =
     (case pack_unit c v of
        Inl e \<Rightarrow> Inl e
      | Inr bs \<Rightarrow> (case pack_units c vs of Inl e \<Rightarrow> Inl e | Inr cs \<Rightarrow> Inr (bs @ cs)))"

text \<open>The number of arguments an item consumes.\<close>

definition item_arity :: "nat \<Rightarrow> char \<Rightarrow> nat" where
  "item_arity n c = (if c = CHR ''x'' then 0 else if c = CHR ''s'' \<or> c = CHR ''p'' then 1 else n)"

definition pack_item :: "nat \<Rightarrow> char \<Rightarrow> pyval list \<Rightarrow> error + byte list" where
  "pack_item n c args =
     (if c = CHR ''x'' then Inr (replicate n 0)
      else if c = CHR ''s'' then
        (case args of [PBytes bs] \<Rightarrow> Inr (pad_to n bs) | _ \<Rightarrow> Inl StructError)
      else if c = CHR ''p'' then
        (case args of
           [PBytes bs] \<Rightarrow>
             if n = 0 then Inr []
             else Inr (pad_to n (word_of_nat (min (min (length bs) (n - 1)) 255)
                                 # take (min (length bs) (n - 1)) bs))
         | _ \<Rightarrow> Inl StructError)
      else pack_units c args)"

fun pack_codes :: "(nat \<times> char) list \<Rightarrow> pyval list \<Rightarrow> error + byte list" where
  "pack_codes [] args = Inr []"
| "pack_codes ((n, c) # ts) args =
     (case pack_item n c (take (item_arity n c) args) of
        Inl e \<Rightarrow> Inl e
      | Inr bs \<Rightarrow>
          (case pack_codes ts (drop (item_arity n c) args) of
             Inl e \<Rightarrow> Inl e
           | Inr cs \<Rightarrow> Inr (bs @ cs)))"

definition struct_pack :: "string \<Rightarrow> pyval list \<Rightarrow> error + byte list" where
  "struct_pack fmt args =
     (case prepare fmt of
        Inl e \<Rightarrow> Inl e
      | Inr ts \<Rightarrow>
          if sum_list (map (\<lambda>(n, c). item_arity n c) ts) \<noteq> length args then Inl StructError
          else pack_codes ts args)"

section \<open>The class DynamicStruct\<close>

text \<open>
  A message type is a subclass of \<^verbatim>\<open>DynamicStruct\<close>: its class attribute
  \<^verbatim>\<open>fields\<close> (references to the template descriptors) and its two hooks. The hooks
  receive the instance's own field dictionary. \<^verbatim>\<open>on_pack\<close> may change the store and may
  raise; \<^verbatim>\<open>is_valid\<close> is a predicate on the store.
\<close>

record msgtype =
  fields_c :: "addr list"
  on_pack :: "odict \<Rightarrow> store \<Rightarrow> (error + unit) \<times> store"
  is_valid :: "odict \<Rightarrow> store \<Rightarrow> bool"

text \<open>The hooks of the base class.\<close>

definition base_on_pack :: "odict \<Rightarrow> store \<Rightarrow> (error + unit) \<times> store" where
  "base_on_pack d s = (Inr (), s)"

definition base_is_valid :: "odict \<Rightarrow> store \<Rightarrow> bool" where
  "base_is_valid d s = True"

definition endian_struct :: string where
  "endian_struct = ''<''"

text \<open>An instance: its class and its \<^verbatim>\<open>_fields\<close> dictionary.\<close>

record DynamicStruct =
  klass :: msgtype
  priv_fields :: odict

text \<open>\<^verbatim>\<open>__setattr__\<close>\<close>

definition setattr :: "DynamicStruct \<Rightarrow> string \<Rightarrow> pyval \<Rightarrow> store \<Rightarrow> (error + unit) \<times> store" where
  "setattr self n v s =
     (case map_of (priv_fields self) n of
        Some a \<Rightarrow> (Inr (), upd_cell a (\<lambda>f. f\<lparr>value_f := v\<rparr>) s)
      | None \<Rightarrow> (Inl (NameError n), s))"

text \<open>
  \<^verbatim>\<open>__getattr__\<close>, which Python calls for a name that ordinary attribute lookup does not
  find. Field names are taken not to coincide with the methods and properties of the class.
\<close>

definition getattr :: "DynamicStruct \<Rightarrow> string \<Rightarrow> store \<Rightarrow> error + pyval" where
  "getattr self n s =
     (case map_of (priv_fields self) n of
        Some a \<Rightarrow> Inr (py_or (value_f (cells s a)) (default_f (cells s a)))
      | None \<Rightarrow> Inl (NameError n))"

text \<open>\<^verbatim>\<open>__init__\<close>: clone every template, then assign the keyword arguments in order.\<close>

fun clone_fields :: "addr list \<Rightarrow> odict \<Rightarrow> store \<Rightarrow> odict \<times> store" where
  "clone_fields [] d s = (d, s)"
| "clone_fields (k # ks) d s =
     (case replace k s of (a, s') \<Rightarrow> clone_fields ks (od_set (name_f (cells s k)) a d) s')"

fun set_kwargs :: "DynamicStruct \<Rightarrow> (string \<times> pyval) list \<Rightarrow> store \<Rightarrow> (error + unit) \<times> store" where
  "set_kwargs self [] s = (Inr (), s)"
| "set_kwargs self ((k, v) # kw) s =
     (case setattr self k v s of
        (Inl e, s') \<Rightarrow> (Inl e, s')
      | (Inr u, s') \<Rightarrow> set_kwargs self kw s')"

definition init :: "msgtype \<Rightarrow> (string \<times> pyval) list \<Rightarrow> store \<Rightarrow> (error + DynamicStruct) \<times> store" where
  "init cls kwargs s =
     (case clone_fields (fields_c cls) [] s of
        (d, s1) \<Rightarrow>
          (case set_kwargs \<lparr>klass = cls, priv_fields = d\<rparr> kwargs s1 of
             (Inl e, s2) \<Rightarrow> (Inl e, s2)
           | (Inr u, s2) \<Rightarrow> (Inr \<lparr>klass = cls, priv_fields = d\<rparr>, s2)))"

text \<open>\<^verbatim>\<open>self._fields.values()\<close>: the descriptors of the instance, in order.\<close>

definition own_fields :: "DynamicStruct \<Rightarrow> store \<Rightarrow> DynamicStructField list" where
  "own_fields self s = map (\<lambda>(n, a). cells s a) (priv_fields self)"

text \<open>The segment of one field in the layout, and the property \<^verbatim>\<open>struct\<close>.\<close>

definition field_fmt :: "DynamicStructField \<Rightarrow> string" where
  "field_fmt f = (if length_f f \<noteq> 1 then str_int (length_f f) else []) @ struct_f f"

definition struct_p :: "DynamicStruct \<Rightarrow> store \<Rightarrow> string" where
  "struct_p self s = endian_struct @ concat (map field_fmt (own_fields self s))"

text \<open>The property \<^verbatim>\<open>size\<close>.\<close>

definition size_p :: "DynamicStruct \<Rightarrow> store \<Rightarrow> error + nat" where
  "size_p self s = calcsize (struct_p self s)"

text \<open>The property \<^verbatim>\<open>values\<close>: every key is a declared name, so no lookup fails.\<close>

definition values_p :: "DynamicStruct \<Rightarrow> store \<Rightarrow> (string \<times> pyval) list" where
  "values_p self s =
     map (\<lambda>(n, a). (n, case getattr self n s of Inr v \<Rightarrow> v | Inl e \<Rightarrow> PNone)) (priv_fields self)"

text \<open>\<^verbatim>\<open>_set_length\<close>, which no method of the class calls.\<close>

fun set_length_loop :: "DynamicStruct \<Rightarrow> addr list \<Rightarrow> store \<Rightarrow> (error + unit) \<times> store" where
  "set_length_loop self [] s = (Inr (), s)"
| "set_length_loop self (a # as) s =
     (if match_length_f (cells s a) then
        (case size_p self s of
           Inl e \<Rightarrow> (Inl e, s)
         | Inr n \<Rightarrow> set_length_loop self as (upd_cell a (\<lambda>f. f\<lparr>value_f := PInt (int n)\<rparr>) s))
      else set_length_loop self as s)"

definition set_length :: "DynamicStruct \<Rightarrow> store \<Rightarrow> (error + unit) \<times> store" where
  "set_length self s = set_length_loop self (map snd (priv_fields self)) s"

text \<open>\<^verbatim>\<open>_set_match_length_pack\<close>\<close>

fun set_match_length_pack_loop :: "addr list \<Rightarrow> store \<Rightarrow> (error + unit) \<times> store" where
  "set_match_length_pack_loop [] s = (Inr (), s)"
| "set_match_length_pack_loop (a # as) s =
     (if match_length_f (cells s a) then
        (case py_len (value_f (cells s a)) of
           Inl e \<Rightarrow> (Inl e, s)
         | Inr n \<Rightarrow> set_match_length_pack_loop as (upd_cell a (\<lambda>f. f\<lparr>length_f := n\<rparr>) s))
      else set_match_length_pack_loop as s)"

definition set_match_length_pack :: "DynamicStruct \<Rightarrow> store \<Rightarrow> (error + unit) \<times> store" where
  "set_match_length_pack self s = set_match_length_pack_loop (map snd (priv_fields self)) s"

text \<open>\<^verbatim>\<open>_set_match_length_unpack\<close>\<close>

definition set_match_length_unpack :: "DynamicStruct \<Rightarrow> int \<Rightarrow> store \<Rightarrow> (error + unit) \<times> store" where
  "set_match_length_unpack self buffer_length s =
     (case filter (\<lambda>a. match_length_f (cells s a)) (map snd (priv_fields self)) of
        [] \<Rightarrow> (Inr (), s)
      | [a] \<Rightarrow>
          (let s1 = upd_cell a (\<lambda>f. f\<lparr>length_f := 0\<rparr>) s in
           case size_p self s1 of
             Inl e \<Rightarrow> (Inl e, s1)
           | Inr n \<Rightarrow> (Inr (), upd_cell a (\<lambda>f. f\<lparr>length_f := buffer_length - int n\<rparr>) s1))
      | a # b # others \<Rightarrow> (Inl (ValueError ''Only one field can have match_length set to True''), s))"

text \<open>\<^verbatim>\<open>pack\<close>. The method it calls first, \<^verbatim>\<open>_set_match_length\<close>, is not defined by the
  class, so Python resolves the name through \<^verbatim>\<open>__getattr__\<close>. The arguments of
  \<^verbatim>\<open>struct.pack\<close> are \<^verbatim>\<open>*self.values\<close>: unpacking a dictionary yields its keys.\<close>

definition pack :: "DynamicStruct \<Rightarrow> store \<Rightarrow> (error + byte list) \<times> store" where
  "pack self s =
     (case getattr self ''_set_match_length'' s of
        Inl e \<Rightarrow> (Inl e, s)
      | Inr m \<Rightarrow>
          (case py_call m of
             Inl e \<Rightarrow> (Inl e, s)
           | Inr u \<Rightarrow>
               (case on_pack (klass self) (priv_fields self) s of
                  (Inl e, s1) \<Rightarrow> (Inl e, s1)
                | (Inr u', s1) \<Rightarrow>
                    (struct_pack (struct_p self s1) (map (\<lambda>(n, v). PStr n) (values_p self s1)), s1))))"

text \<open>\<^verbatim>\<open>unpack\<close>\<close>

fun assign_values :: "(addr \<times> pyval) list \<Rightarrow> store \<Rightarrow> store" where
  "assign_values [] s = s"
| "assign_values ((a, v) # avs) s = assign_values avs (upd_cell a (\<lambda>f. f\<lparr>value_f := v\<rparr>) s)"

definition unpack :: "DynamicStruct \<Rightarrow> byte list \<Rightarrow> bool \<Rightarrow> store \<Rightarrow> (error + unit) \<times> store" where
  "unpack self buffer validate s =
     (case set_match_length_unpack self (int (length buffer)) s of
        (Inl e, s1) \<Rightarrow> (Inl e, s1)
      | (Inr u, s1) \<Rightarrow>
          (case struct_unpack (struct_p self s1) buffer of
             Inl e \<Rightarrow> (Inl e, s1)
           | Inr vals \<Rightarrow>
               (let s2 = assign_values (zip (map snd (priv_fields self)) vals) s1 in
                if validate \<and> \<not> is_valid (klass self) (priv_fields self) s2
                then (Inl (ValueError ''Failed to validate instance''), s2)
                else (Inr (), s2))))"

text \<open>\<^verbatim>\<open>from_buffer\<close>\<close>

definition from_buffer :: "msgtype \<Rightarrow> byte list \<Rightarrow> bool \<Rightarrow> store \<Rightarrow> (error + DynamicStruct) \<times> store" where
  "from_buffer cls buffer validate s =
     (case init cls [] s of
        (Inl e, s1) \<Rightarrow> (Inl e, s1)
      | (Inr inst, s1) \<Rightarrow>
          (case unpack inst buffer validate s1 of
             (Inl e, s2) \<Rightarrow> (Inl e, s2)
           | (Inr u, s2) \<Rightarrow> (Inr inst, s2)))"

text \<open>The number a run of digits denotes, continuing from \<open>a\<close>.\<close>

definition acc_val :: "nat \<Rightarrow> string \<Rightarrow> nat" where
  "acc_val a ds = foldl (\<lambda>a d. 10 * a + digit_val d) a ds"

section \<open>Notions of the specification\<close>

text \<open>
  A field is well formed when its encoding is a single code of the table and its repeat
  count is not negative; it then occupies \<open>field_bytes\<close> bytes.
\<close>

definition wf_code :: "DynamicStructField \<Rightarrow> bool" where
  "wf_code f = (case struct_f f of [c] \<Rightarrow> code_size c \<noteq> None | _ \<Rightarrow> False)"

definition wf_field :: "DynamicStructField \<Rightarrow> bool" where
  "wf_field f = (wf_code f \<and> 0 \<le> length_f f)"

definition field_bytes :: "DynamicStructField \<Rightarrow> nat" where
  "field_bytes f = nat (length_f f) * unit_size (hd (struct_f f))"

text \<open>
  The layout as the specification words it: the byte-order marker, then for each field
  its repeat count, omitted exactly when it is 1, and its encoding.
\<close>

definition spec_layout :: "DynamicStructField list \<Rightarrow> string" where
  "spec_layout fs =
     CHR ''<'' # concat (map (\<lambda>f. (if length_f f = 1 then [] else str_int (length_f f)) @ struct_f f) fs)"

text \<open>The byte length a layout implies without padding: the sum over the fields.\<close>

definition spec_size :: "DynamicStructField list \<Rightarrow> nat" where
  "spec_size fs = sum_list (map field_bytes fs)"

text \<open>The aggregate size of the fields that are not match-length.\<close>

definition static_size :: "DynamicStructField list \<Rightarrow> nat" where
  "static_size fs = spec_size (filter (\<lambda>f. \<not> match_length_f f) fs)"

definition own_addrs :: "DynamicStruct \<Rightarrow> addr list" where
  "own_addrs self = map snd (priv_fields self)"

section \<open>Example message types\<close>

text \<open>The message of the class documentation: \<open>hello\<close>, \<open>world\<close> and a match-length \<open>payload\<close>.\<close>

definition hello_tpl :: DynamicStructField where
  "hello_tpl = (new_field ''hello'')\<lparr>default_f := PInt 1\<rparr>"

definition world_tpl :: DynamicStructField where
  "world_tpl = new_field ''world''"

definition payload_tpl :: DynamicStructField where
  "payload_tpl = (new_field ''payload'')\<lparr>struct_f := ''s'', match_length_f := True\<rparr>"

definition hello_store :: store where
  "hello_store =
     \<lparr>cells = (\<lambda>a. new_field [])(0 := hello_tpl, 1 := world_tpl, 2 := payload_tpl), next_free = 3\<rparr>"

definition HelloMessage :: msgtype where
  "HelloMessage = \<lparr>fields_c = [0, 1, 2], on_pack = base_on_pack, is_valid = base_is_valid\<rparr>"

text \<open>A message of two plain bytes, with no match-length field.\<close>

definition pair_store :: store where
  "pair_store = \<lparr>cells = (\<lambda>a. new_field [])(0 := new_field ''a'', 1 := new_field ''b''), next_free = 2\<rparr>"

definition PairMessage :: msgtype where
  "PairMessage = \<lparr>fields_c = [0, 1], on_pack = base_on_pack, is_valid = base_is_valid\<rparr>"

text \<open>The documented message built with \<open>world = 1\<close> and \<open>payload = b"hi"\<close>.\<close>

definition hello_built :: "(error + DynamicStruct) \<times> store" where
  "hello_built = init HelloMessage [(''world'', PInt 1), (''payload'', PBytes [104, 105])] hello_store"

definition hello_inst :: DynamicStruct where
  "hello_inst = (case fst hello_built of Inr m \<Rightarrow> m | Inl e \<Rightarrow> \<lparr>klass = HelloMessage, priv_fields = []\<rparr>)"

definition hello_s :: store where
  "hello_s = snd hello_built"






text \<open>A message with two match-length byte strings, built with \<open>left = b"ab"\<close> and \<open>right = b"c"\<close>.\<close>

definition two_store :: store where
  "two_store =
     \<lparr>cells = (\<lambda>a. new_field [])
        (0 := (new_field ''left'')\<lparr>struct_f := ''s'', match_length_f := True\<rparr>,
         1 := (new_field ''right'')\<lparr>struct_f := ''s'', match_length_f := True\<rparr>),
      next_free = 2\<rparr>"

definition TwoTailMessage :: msgtype where
  "TwoTailMessage = \<lparr>fields_c = [0, 1], on_pack = base_on_pack, is_valid = base_is_valid\<rparr>"

definition two_built :: "(error + DynamicStruct) \<times> store" where
  "two_built = init TwoTailMessage [(''left'', PBytes [97, 98]), (''right'', PBytes [99])] two_store"

definition two_inst :: DynamicStruct where
  "two_inst = (case fst two_built of Inr m \<Rightarrow> m | Inl e \<Rightarrow> \<lparr>klass = TwoTailMessage, priv_fields = []\<rparr>)"

definition two_s :: store where
  "two_s = snd two_built"

text \<open>A message whose first field is two unsigned bytes wide, followed by one byte.\<close>

definition wide_store :: store where
  "wide_store =
     \<lparr>cells = (\<lambda>a. new_field [])(0 := (new_field ''a'')\<lparr>length_f := 2\<rparr>, 1 := new_field ''b''),
      next_free = 2\<rparr>"

definition WideMessage :: msgtype where
  "WideMessage = \<lparr>fields_c = [0, 1], on_pack = base_on_pack, is_valid = base_is_valid\<rparr>"

definition wide_built :: "(error + DynamicStruct) \<times> store" where
  "wide_built = init WideMessage [] wide_store"

definition wide_inst :: DynamicStruct where
  "wide_inst = (case fst wide_built of Inr m \<Rightarrow> m | Inl e \<Rightarrow> \<lparr>klass = WideMessage, priv_fields = []\<rparr>)"

definition wide_s :: store where
  "wide_s = snd wide_built"

text \<open>
  The calls a client makes on an instance. A call that raises leaves the store as it was
  at the raise, and the client may go on.
\<close>

datatype call = SetAttr string pyval | Pack | Unpack "byte list" bool

fun run_call :: "DynamicStruct \<Rightarrow> call \<Rightarrow> store \<Rightarrow> store" where
  "run_call self (SetAttr n v) s = snd (setattr self n v s)"
| "run_call self Pack s = snd (pack self s)"
| "run_call self (Unpack buffer validate) s = snd (unpack self buffer validate s)"

fun run_calls :: "DynamicStruct \<Rightarrow> call list \<Rightarrow> store \<Rightarrow> store" where
  "run_calls self [] s = s"
| "run_calls self (c # cs) s = run_calls self cs (run_call self c s)"

text \<open>A second instance of the documented message, built after the first.\<close>

definition hello2_built :: "(error + DynamicStruct) \<times> store" where
  "hello2_built = init HelloMessage [] hello_s"

definition hello2_inst :: DynamicStruct where
  "hello2_inst = (case fst hello2_built of Inr m \<Rightarrow> m | Inl e \<Rightarrow> \<lparr>klass = HelloMessage, priv_fields = []\<rparr>)"

definition hello2_s :: store where
  "hello2_s = snd hello2_built"

text \<open>
  A field that decodes to exactly one value: a byte string of any length, a Pascal string
  of at least one byte, or a single unit of any other code but padding.
\<close>

definition single_tok :: "nat \<times> char \<Rightarrow> bool" where
  "single_tok t =
     (case t of (n, c) \<Rightarrow>
        code_size c \<noteq> None \<and> c \<noteq> CHR ''x'' \<and>
        (if c = CHR ''s'' then True else if c = CHR ''p'' then 1 \<le> n else n = 1))"

definition single_value :: "DynamicStructField \<Rightarrow> bool" where
  "single_value f =
     (case struct_f f of
        [c] \<Rightarrow> 0 \<le> length_f f \<and> single_tok (nat (length_f f), c)
      | _ \<Rightarrow> False)"

text \<open>A message whose match-length byte string comes first, followed by one byte;
  built with \<open>payload = b"hi"\<close>.\<close>

definition lead_store :: store where
  "lead_store =
     \<lparr>cells = (\<lambda>a. new_field [])
        (0 := (new_field ''payload'')\<lparr>struct_f := ''s'', match_length_f := True\<rparr>,
         1 := new_field ''check''),
      next_free = 2\<rparr>"

definition LeadMessage :: msgtype where
  "LeadMessage = \<lparr>fields_c = [0, 1], on_pack = base_on_pack, is_valid = base_is_valid\<rparr>"

definition lead_built :: "(error + DynamicStruct) \<times> store" where
  "lead_built = init LeadMessage [(''payload'', PBytes [104, 105])] lead_store"

definition lead_inst :: DynamicStruct where
  "lead_inst = (case fst lead_built of Inr m \<Rightarrow> m | Inl e \<Rightarrow> \<lparr>klass = LeadMessage, priv_fields = []\<rparr>)"

definition lead_s :: store where
  "lead_s = snd lead_built"

section \<open>Properties of the struct library model\<close>

lemma code_size_cases:
  "code_size c \<noteq> None \<Longrightarrow> c \<in> set ''xcbB?hHiIlLqQefdsp''"
  by (auto simp: code_size_def code_table_def split: if_splits)

lemma code_not_digit: "code_size c \<noteq> None \<Longrightarrow> \<not> is_digit c"
  by (drule code_size_cases) (auto simp: is_digit_def)

lemma code_not_space: "code_size c \<noteq> None \<Longrightarrow> \<not> is_space c"
  by (drule code_size_cases) (auto simp: is_space_def)

lemma code_ascii: "code_size c \<noteq> None \<Longrightarrow> (of_char c :: nat) < 128"
  by (drule code_size_cases) auto

lemma digit_ascii: "is_digit c \<Longrightarrow> (of_char c :: nat) < 128"
  by (simp add: is_digit_def)

lemma is_digit_digit_char: "d < 10 \<Longrightarrow> is_digit (digit_char d)"
  by (simp add: is_digit_def digit_char_def)

lemma digit_val_digit_char: "d < 10 \<Longrightarrow> digit_val (digit_char d) = d"
  by (simp add: digit_val_def digit_char_def)


lemma str_nat_digits: "\<forall>c \<in> set (str_nat n). is_digit c"
proof (induction n rule: str_nat.induct)
  case (1 n)
  show ?case
  proof (cases "n < 10")
    case True
    then show ?thesis by (subst str_nat.simps) (simp add: is_digit_digit_char)
  next
    case False
    with 1 show ?thesis by (subst str_nat.simps) (simp add: is_digit_digit_char)
  qed
qed

lemma str_nat_nonempty: "str_nat n \<noteq> []"
  by (subst str_nat.simps) simp

lemma acc_val_str_nat: "acc_val 0 (str_nat n) = n"
proof (induction n rule: str_nat.induct)
  case (1 n)
  show ?case
  proof (cases "n < 10")
    case True
    then show ?thesis by (subst str_nat.simps) (simp add: acc_val_def digit_val_digit_char)
  next
    case False
    with 1 have "acc_val 0 (str_nat (n div 10)) = n div 10" by simp
    with False show ?thesis
      by (subst str_nat.simps) (simp add: acc_val_def digit_val_digit_char)
  qed
qed

lemma parse_digits:
  "\<forall>d \<in> set ds. is_digit d \<Longrightarrow> ds \<noteq> [] \<Longrightarrow>
   parse_fmt acc (ds @ cs) = parse_fmt (Some (acc_val (case acc of None \<Rightarrow> 0 | Some n \<Rightarrow> n) ds)) cs"
proof (induction ds arbitrary: acc)
  case Nil
  then show ?case by simp
next
  case (Cons d ds)
  show ?case
  proof (cases "ds = []")
    case True
    with Cons.prems show ?thesis by (simp add: acc_val_def)
  next
    case False
    with Cons show ?thesis by (simp add: acc_val_def)
  qed
qed

lemma parse_code:
  "code_size c \<noteq> None \<Longrightarrow>
   parse_fmt acc (c # cs) =
     (case parse_fmt None cs of Inl e \<Rightarrow> Inl e
      | Inr ts \<Rightarrow> Inr ((case acc of None \<Rightarrow> 1 | Some n \<Rightarrow> n, c) # ts))"
  by (cases acc) (auto simp: code_not_digit code_not_space)

lemma parse_counted:
  "code_size c \<noteq> None \<Longrightarrow>
   parse_fmt None (str_nat n @ c # cs) =
     (case parse_fmt None cs of Inl e \<Rightarrow> Inl e | Inr ts \<Rightarrow> Inr ((n, c) # ts))"
proof -
  assume c: "code_size c \<noteq> None"
  have "parse_fmt None (str_nat n @ c # cs) = parse_fmt (Some (acc_val 0 (str_nat n))) (c # cs)"
    using parse_digits[of "str_nat n" None "c # cs"] str_nat_digits[of n] str_nat_nonempty[of n]
    by simp
  with c show ?thesis
    by (simp add: acc_val_str_nat parse_code del: parse_fmt.simps cong: sum.case_cong)
qed

lemma parse_field:
  assumes "wf_field f"
  shows "parse_fmt None (field_fmt f @ cs) =
     (case parse_fmt None cs of Inl e \<Rightarrow> Inl e
      | Inr ts \<Rightarrow> Inr ((nat (length_f f), hd (struct_f f)) # ts))"
proof -
  from assms obtain c where c: "struct_f f = [c]" "code_size c \<noteq> None" and len: "0 \<le> length_f f"
    by (auto simp: wf_field_def wf_code_def split: list.splits)
  show ?thesis
  proof (cases "length_f f = 1")
    case True
    with c show ?thesis by (simp add: field_fmt_def parse_code del: parse_fmt.simps cong: sum.case_cong)
  next
    case False
    with c len show ?thesis
      by (simp add: field_fmt_def str_int_def parse_counted del: parse_fmt.simps cong: sum.case_cong)
  qed
qed

lemma parse_fields:
  "\<forall>f \<in> set fs. wf_field f \<Longrightarrow>
   parse_fmt None (concat (map field_fmt fs)) = Inr (map (\<lambda>f. (nat (length_f f), hd (struct_f f))) fs)"
proof (induction fs)
  case Nil
  show ?case by simp
next
  case (Cons f fs)
  then show ?case by (simp add: parse_field del: parse_fmt.simps)
qed

lemma total_size_fields:
  "total_size (map (\<lambda>f. (nat (length_f f), hd (struct_f f))) fs) = spec_size fs"
  by (induction fs) (simp_all add: total_size_def spec_size_def field_bytes_def)

lemma field_fmt_ascii:
  assumes "wf_field f" shows "\<forall>c \<in> set (field_fmt f). (of_char c :: nat) < 128"
proof -
  from assms obtain c where c: "struct_f f = [c]" "code_size c \<noteq> None" and len: "0 \<le> length_f f"
    by (auto simp: wf_field_def wf_code_def split: list.splits)
  then show ?thesis using str_nat_digits[of "nat (length_f f)"]
    by (auto simp: field_fmt_def str_int_def code_ascii digit_ascii)
qed

lemma prepare_fields:
  assumes "\<forall>f \<in> set fs. wf_field f"
  shows "prepare (endian_struct @ concat (map field_fmt fs)) =
     (if PY_SSIZE_T_MAX < spec_size fs then Inl StructError
      else Inr (map (\<lambda>f. (nat (length_f f), hd (struct_f f))) fs))"
proof -
  have "\<forall>c \<in> set (concat (map field_fmt fs)). (of_char c :: nat) < 128"
    using assms field_fmt_ascii by auto
  then have "\<forall>c \<in> set (endian_struct @ concat (map field_fmt fs)). (of_char c :: nat) < 128"
    by (simp add: endian_struct_def)
  then have "\<not> (\<exists>c \<in> set (endian_struct @ concat (map field_fmt fs)). 128 \<le> (of_char c :: nat))"
    by (meson not_le)
  then show ?thesis using assms
    by (simp add: prepare_def endian_struct_def parse_fields total_size_fields del: parse_fmt.simps)
qed

lemma field_fmt_alt:
  "field_fmt = (\<lambda>f. (if length_f f = 1 then [] else str_int (length_f f)) @ struct_f f)"
  by (rule ext) (simp add: field_fmt_def)

lemma struct_p_spec: "struct_p self s = spec_layout (own_fields self s)"
  by (simp add: struct_p_def spec_layout_def field_fmt_alt endian_struct_def)

section \<open>Layout and size\<close>

text \<open>
  Claim C9. The derived layout of an instance is the byte-order marker followed, for each
  field in declaration order, by its repeat count (left out exactly when it is 1) and its
  encoding; the derived size is the size the struct library computes for that layout, and
  for well-formed fields within the library's bound it is the sum of repeat count times
  unit size over the fields, that is the byte length of the layout in little-endian mode
  with no padding. Both properties are functions of the store and return no store:
  reading them changes no field.
\<close>
theorem layout_and_size_derived:
  "struct_p self s = spec_layout (own_fields self s) \<and>
   size_p self s = calcsize (spec_layout (own_fields self s)) \<and>
   (list_all wf_field (own_fields self s) \<and> spec_size (own_fields self s) \<le> PY_SSIZE_T_MAX \<longrightarrow>
      size_p self s = Inr (spec_size (own_fields self s)))"
proof -
  have "size_p self s = Inr (spec_size (own_fields self s))"
    if "list_all wf_field (own_fields self s)" "spec_size (own_fields self s) \<le> PY_SSIZE_T_MAX"
    using that
    by (simp add: size_p_def struct_p_def calcsize_def prepare_fields total_size_fields list_all_iff)
  then show ?thesis by (simp add: struct_p_spec size_p_def)
qed

theorem layout_and_size_derived_witness:
  "list_all wf_field (own_fields hello_inst hello_s) \<and>
   spec_size (own_fields hello_inst hello_s) \<le> PY_SSIZE_T_MAX \<and>
   struct_p hello_inst hello_s = ''<BBs'' \<and> size_p hello_inst hello_s = Inr 3"
proof -
  have h1: "list_all wf_field (own_fields hello_inst hello_s)" by code_simp
  have h3: "spec_layout (own_fields hello_inst hello_s) = ''<BBs''" by code_simp
  have h4: "spec_size (own_fields hello_inst hello_s) = 3" by code_simp
  have h2: "spec_size (own_fields hello_inst hello_s) \<le> PY_SSIZE_T_MAX"
    by (simp add: h4 PY_SSIZE_T_MAX_def)
  from layout_and_size_derived[of hello_inst hello_s] h1 h2
  have "struct_p hello_inst hello_s = spec_layout (own_fields hello_inst hello_s)"
    and "size_p hello_inst hello_s = Inr (spec_size (own_fields hello_inst hello_s))"
    by blast+
  with h1 h2 h3 h4 show ?thesis by metis
qed

section \<open>Packing\<close>

text \<open>
  \<^verbatim>\<open>pack\<close> never returns bytes and never changes the store: the name
  \<^verbatim>\<open>_set_match_length\<close> is either unknown or the name of a field, whose value cannot be
  called.
\<close>

lemma pack_fails: "\<exists>e. pack self s = (Inl e, s)"
  by (simp add: pack_def getattr_def py_call_def split: option.splits)

lemma pack_store: "snd (pack self s) = s"
  using pack_fails[of self s] by auto

text \<open>
  Claim C1 (round trip of \<^verbatim>\<open>pack\<close> and \<^verbatim>\<open>unpack\<close>) fails on the code: for the
  two-byte message with no match-length field, built with \<open>a = 1\<close> and \<open>b = 2\<close>,
  \<^verbatim>\<open>pack\<close> raises \<^verbatim>\<open>NameError\<close> and produces no bytes to unpack.
\<close>

theorem pack_pair_raises:
  "(case init PairMessage [(''a'', PInt 1), (''b'', PInt 2)] pair_store of
      (Inr m, s) \<Rightarrow> fst (pack m s) = Inl (NameError ''_set_match_length'')
    | (Inl e, s) \<Rightarrow> False)"
  by code_simp

text \<open>
  Claim C2 (the steps of \<^verbatim>\<open>pack\<close> and the bytes of the documented example) fails on
  the code: on the documented message with \<open>world = 1\<close> and \<open>payload = b"hi"\<close>,
  \<^verbatim>\<open>pack\<close> raises \<^verbatim>\<open>NameError\<close> before any step runs. The resolution step it meant
  to call gives the layout \<^verbatim>\<open><BB2s\<close> of size 4, and the last statement would hand the
  field names, not the field values, to the struct library, which rejects them.
\<close>

theorem pack_hello_raises:
  "fst (pack hello_inst hello_s) = Inl (NameError ''_set_match_length'') \<and>
   (case set_match_length_pack hello_inst hello_s of
      (r, s1) \<Rightarrow> r = Inr () \<and> struct_p hello_inst s1 = ''<BB2s'' \<and> size_p hello_inst s1 = Inr 4 \<and>
        map (\<lambda>(n, v). PStr n) (values_p hello_inst s1) = [PStr ''hello'', PStr ''world'', PStr ''payload''] \<and>
        struct_pack (struct_p hello_inst s1) (map (\<lambda>(n, v). PStr n) (values_p hello_inst s1)) = Inl StructError)"
  by code_simp

section \<open>Field access\<close>

text \<open>A name that is no key of the instance is rejected by reading, writing and construction.\<close>

lemma getattr_unknown:
  "map_of (priv_fields self) n = None \<Longrightarrow> getattr self n s = Inl (NameError n)"
  by (simp add: getattr_def)

lemma setattr_unknown:
  "map_of (priv_fields self) n = None \<Longrightarrow> setattr self n v s = (Inl (NameError n), s)"
  by (simp add: setattr_def)

lemma set_kwargs_unknown:
  "map_of (priv_fields self) n = None \<Longrightarrow> (n, v) \<in> set kw \<Longrightarrow>
   \<exists>n'. fst (set_kwargs self kw s) = Inl (NameError n')"
proof (induction kw arbitrary: s)
  case Nil
  then show ?case by simp
next
  case (Cons p kw)
  obtain k w where p: "p = (k, w)" by (cases p)
  show ?case
  proof (cases "map_of (priv_fields self) k")
    case None
    then show ?thesis by (simp add: p setattr_def)
  next
    case (Some a)
    with Cons.prems p have "(n, v) \<in> set kw" by auto
    from Cons.IH[OF Cons.prems(1) this] Some show ?thesis by (simp add: p setattr_def)
  qed
qed

lemma getattr_known:
  "map_of (priv_fields self) n = Some a \<Longrightarrow>
   getattr self n s = Inr (if truthy (value_f (cells s a)) then value_f (cells s a) else default_f (cells s a))"
  by (simp add: getattr_def py_or_def)

text \<open>
  Claim C5 (reading a field returns its value whenever one has been set, whatever it is)
  fails on the code: in the documented message, whose field \<open>hello\<close> has default 1, after
  \<open>hello\<close> is set to 0 the descriptor holds 0 and reading \<open>hello\<close> returns the default 1.
\<close>

theorem getattr_zero_reads_default:
  "(case init HelloMessage [(''hello'', PInt 0)] hello_store of
      (Inr m, s) \<Rightarrow>
        map (\<lambda>f. (name_f f, value_f f, default_f f)) (own_fields m s) =
          [(''hello'', PInt 0, PInt 1), (''world'', PNone, PInt 0), (''payload'', PNone, PInt 0)] \<and>
        getattr m ''hello'' s = Inr (PInt 1)
    | (Inl e, s) \<Rightarrow> False)"
  by code_simp

section \<open>The store\<close>

lemma cells_upd_cell [simp]:
  "cells (upd_cell a g s) b = (if b = a then g (cells s a) else cells s b)"
  by (simp add: upd_cell_def)

lemma next_free_upd_cell [simp]: "next_free (upd_cell a g s) = next_free s"
  by (simp add: upd_cell_def)

lemma own_fields_addrs: "own_fields self s = map (cells s) (own_addrs self)"
  by (simp add: own_fields_def own_addrs_def case_prod_unfold comp_def)

text \<open>Assigning decoded values touches the \<open>value\<close> attribute only.\<close>

lemma assign_values_length [simp]: "length_f (cells (assign_values avs s) b) = length_f (cells s b)"
  by (induction avs s rule: assign_values.induct) simp_all

lemma assign_values_struct [simp]: "struct_f (cells (assign_values avs s) b) = struct_f (cells s b)"
  by (induction avs s rule: assign_values.induct) simp_all

lemma assign_values_match [simp]:
  "match_length_f (cells (assign_values avs s) b) = match_length_f (cells s b)"
  by (induction avs s rule: assign_values.induct) simp_all

lemma assign_values_name [simp]: "name_f (cells (assign_values avs s) b) = name_f (cells s b)"
  by (induction avs s rule: assign_values.induct) simp_all

lemma assign_values_default [simp]: "default_f (cells (assign_values avs s) b) = default_f (cells s b)"
  by (induction avs s rule: assign_values.induct) simp_all

lemma assign_values_frame: "b \<notin> fst ` set avs \<Longrightarrow> cells (assign_values avs s) b = cells s b"
  by (induction avs s rule: assign_values.induct) auto

lemma assign_values_next_free [simp]: "next_free (assign_values avs s) = next_free s"
  by (induction avs s rule: assign_values.induct) simp_all

section \<open>Scanning a layout with a bad character\<close>

lemma parse_bad_char:
  "c \<in> set cs \<Longrightarrow> \<not> is_digit c \<Longrightarrow> \<not> is_space c \<Longrightarrow> code_size c = None \<Longrightarrow>
   parse_fmt acc cs = Inl StructError"
proof (induction cs arbitrary: acc)
  case Nil
  then show ?case by simp
next
  case (Cons d ds)
  show ?case
  proof (cases "d = c")
    case True
    with Cons.prems show ?thesis by simp
  next
    case False
    with Cons.prems have "c \<in> set ds" by simp
    from Cons.IH[OF this Cons.prems(2,3,4)] show ?thesis by simp
  qed
qed

lemma minus_bad: "\<not> is_digit CHR ''-''" "\<not> is_space CHR ''-''" "code_size CHR ''-'' = None"
  by (simp_all add: is_digit_def is_space_def code_size_def code_table_def)

lemma str_int_ascii: "\<forall>c \<in> set (str_int i). (of_char c :: nat) < 128"
  using str_nat_digits[of "nat i"] str_nat_digits[of "nat (- i)"]
  by (auto simp: str_int_def digit_ascii)

lemma field_fmt_ascii_code:
  assumes "wf_code f" shows "\<forall>c \<in> set (field_fmt f). (of_char c :: nat) < 128"
proof -
  from assms obtain c where c: "struct_f f = [c]" "code_size c \<noteq> None"
    by (auto simp: wf_code_def split: list.splits)
  then show ?thesis using str_int_ascii[of "length_f f"]
    by (auto simp: field_fmt_def code_ascii)
qed

lemma prepare_negative:
  assumes codes: "\<forall>f \<in> set fs. wf_code f" and neg: "f \<in> set fs" "length_f f < 0"
  shows "prepare (endian_struct @ concat (map field_fmt fs)) = Inl StructError"
proof -
  have "\<forall>c \<in> set (concat (map field_fmt fs)). (of_char c :: nat) < 128"
    using codes field_fmt_ascii_code by auto
  then have "\<forall>c \<in> set (endian_struct @ concat (map field_fmt fs)). (of_char c :: nat) < 128"
    by (simp add: endian_struct_def)
  then have ascii: "\<not> (\<exists>c \<in> set (endian_struct @ concat (map field_fmt fs)). 128 \<le> (of_char c :: nat))"
    by (meson not_le)
  from neg have "CHR ''-'' \<in> set (field_fmt f)"
    by (simp add: field_fmt_def str_int_def)
  with neg(1) have "CHR ''-'' \<in> set (concat (map field_fmt fs))" by auto
  from parse_bad_char[OF this minus_bad]
  have "parse_fmt None (concat (map field_fmt fs)) = Inl StructError" .
  with ascii show ?thesis
    by (simp add: prepare_def endian_struct_def del: parse_fmt.simps)
qed

lemma size_p_fields:
  assumes "\<forall>f \<in> set (own_fields self s). wf_field f"
      and "spec_size (own_fields self s) \<le> PY_SSIZE_T_MAX"
  shows "size_p self s = Inr (spec_size (own_fields self s))"
  using assms by (simp add: size_p_def struct_p_def calcsize_def prepare_fields total_size_fields)

section \<open>Match-length resolution on unpack\<close>

lemma single_match:
  assumes "filter P xs = [a]"
  shows "a \<in> set xs" and "P a" and "\<forall>b \<in> set xs. P b \<longleftrightarrow> b = a"
proof -
  have "set (filter P xs) = {a}" using assms by simp
  then show "a \<in> set xs" and "P a" and "\<forall>b \<in> set xs. P b \<longleftrightarrow> b = a" by auto
qed

lemma static_size_single:
  assumes "\<forall>b \<in> set xs. match_length_f (cells s b) \<longleftrightarrow> b = a"
  shows "spec_size (map (cells (upd_cell a (\<lambda>f. f\<lparr>length_f := 0\<rparr>) s)) xs) =
         static_size (map (cells s) xs)"
  using assms by (induction xs) (auto simp: spec_size_def static_size_def field_bytes_def)

text \<open>The outcome of \<^verbatim>\<open>_set_match_length_unpack\<close> with exactly one match-length field.\<close>

lemma set_match_length_unpack_single:
  assumes one: "filter (\<lambda>a. match_length_f (cells s a)) (own_addrs self) = [a]"
      and codes: "list_all wf_code (own_fields self s)"
      and lens: "list_all (\<lambda>f. match_length_f f \<or> 0 \<le> length_f f) (own_fields self s)"
      and bound: "static_size (own_fields self s) \<le> PY_SSIZE_T_MAX"
  shows "set_match_length_unpack self n s =
           (Inr (), upd_cell a (\<lambda>f. f\<lparr>length_f := n - int (static_size (own_fields self s))\<rparr>)
                      (upd_cell a (\<lambda>f. f\<lparr>length_f := 0\<rparr>) s))"
proof -
  let ?s1 = "upd_cell a (\<lambda>f. f\<lparr>length_f := 0\<rparr>) s"
  note sm = single_match[OF one]
  have wf1: "\<forall>f \<in> set (own_fields self ?s1). wf_field f"
    using codes lens sm(3)
    by (auto simp: own_fields_addrs list_all_iff wf_field_def wf_code_def)
  have sz: "spec_size (own_fields self ?s1) = static_size (own_fields self s)"
    using static_size_single[OF sm(3)] by (simp add: own_fields_addrs)
  have "size_p self ?s1 = Inr (static_size (own_fields self s))"
    using size_p_fields[OF wf1] bound sz by simp
  then show ?thesis
    using one by (simp add: set_match_length_unpack_def own_addrs_def Let_def)
qed

text \<open>
  Claim C8. With exactly one match-length field, \<^verbatim>\<open>unpack\<close> leaves that field's repeat
  count at the buffer length minus the aggregate size of the other fields, and when that
  difference is negative it fails with the struct library's error. The fields carry
  codes of the table, the other fields have repeat counts that are not negative and
  their aggregate size is within the library's bound.
\<close>

theorem unpack_resolves_match_length:
  assumes one: "filter (\<lambda>a. match_length_f (cells s a)) (own_addrs self) = [a]"
      and codes: "list_all wf_code (own_fields self s)"
      and lens: "list_all (\<lambda>f. match_length_f f \<or> 0 \<le> length_f f) (own_fields self s)"
      and bound: "static_size (own_fields self s) \<le> PY_SSIZE_T_MAX"
  shows "length_f (cells (snd (unpack self buffer validate s)) a) =
           int (length buffer) - int (static_size (own_fields self s)) \<and>
         (int (length buffer) < int (static_size (own_fields self s)) \<longrightarrow>
            fst (unpack self buffer validate s) = Inl StructError)"
proof -
  let ?n = "int (length buffer) - int (static_size (own_fields self s))"
  let ?s1 = "upd_cell a (\<lambda>f. f\<lparr>length_f := 0\<rparr>) s"
  let ?s2 = "upd_cell a (\<lambda>f. f\<lparr>length_f := ?n\<rparr>) ?s1"
  note sm = single_match[OF one]
  have res: "set_match_length_unpack self (int (length buffer)) s = (Inr (), ?s2)"
    by (rule set_match_length_unpack_single[OF one codes lens bound])
  have len: "length_f (cells (snd (unpack self buffer validate s)) a) = ?n"
    by (simp add: unpack_def res Let_def split: sum.splits)
  have neg: "fst (unpack self buffer validate s) = Inl StructError" if "?n < 0"
  proof -
    have c2: "\<forall>f \<in> set (own_fields self ?s2). wf_code f"
      using codes by (auto simp: own_fields_addrs list_all_iff wf_code_def)
    have "cells ?s2 a \<in> set (own_fields self ?s2)"
      using sm(1) by (simp add: own_fields_addrs image_iff) 
    moreover have "length_f (cells ?s2 a) < 0" using that by simp
    ultimately have "prepare (struct_p self ?s2) = Inl StructError"
      unfolding struct_p_def using prepare_negative[OF c2] by blast
    then show ?thesis by (simp add: unpack_def res struct_unpack_def)
  qed
  from len neg show ?thesis by simp
qed


theorem unpack_resolves_match_length_witness:
  "filter (\<lambda>a. match_length_f (cells hello_s a)) (own_addrs hello_inst) = [5] \<and>
   list_all wf_code (own_fields hello_inst hello_s) \<and>
   list_all (\<lambda>f. match_length_f f \<or> 0 \<le> length_f f) (own_fields hello_inst hello_s) \<and>
   static_size (own_fields hello_inst hello_s) \<le> PY_SSIZE_T_MAX \<and>
   length_f (cells (snd (unpack hello_inst [1, 1, 104, 105, 33] True hello_s)) 5) = 3 \<and>
   length_f (cells (snd (unpack hello_inst [7] True hello_s)) 5) = - 1 \<and>
   fst (unpack hello_inst [7] True hello_s) = Inl StructError"
proof -
  have h1: "filter (\<lambda>a. match_length_f (cells hello_s a)) (own_addrs hello_inst) = [5]"
    by code_simp
  have h2: "list_all wf_code (own_fields hello_inst hello_s)" by code_simp
  have h3: "list_all (\<lambda>f. match_length_f f \<or> 0 \<le> length_f f) (own_fields hello_inst hello_s)"
    by code_simp
  have st: "static_size (own_fields hello_inst hello_s) = 2" by code_simp
  have h4: "static_size (own_fields hello_inst hello_s) \<le> PY_SSIZE_T_MAX"
    by (simp add: st PY_SSIZE_T_MAX_def)
  from unpack_resolves_match_length[OF h1 h2 h3 h4, of "[1, 1, 104, 105, 33]" True]
  have a: "length_f (cells (snd (unpack hello_inst [1, 1, 104, 105, 33] True hello_s)) 5) = 3"
    by (simp add: st)
  from unpack_resolves_match_length[OF h1 h2 h3 h4, of "[7]" True]
  have b: "length_f (cells (snd (unpack hello_inst [7] True hello_s)) 5) = - 1"
    and c: "fst (unpack hello_inst [7] True hello_s) = Inl StructError"
    by (simp_all add: st)
  from h1 h2 h3 h4 a b c show ?thesis by blast
qed

section \<open>Validation after unpack\<close>






section \<open>More than one match-length field\<close>

text \<open>
  With two or more match-length fields, \<^verbatim>\<open>_set_match_length_unpack\<close> raises the schema
  error and leaves the store alone, and so does \<^verbatim>\<open>unpack\<close> on any buffer; construction
  does not look at the flag.
\<close>

lemma set_match_length_unpack_many:
  "1 < length (filter (\<lambda>a. match_length_f (cells s a)) (own_addrs self)) \<Longrightarrow>
   set_match_length_unpack self n s =
     (Inl (ValueError ''Only one field can have match_length set to True''), s)"
proof -
  assume many: "1 < length (filter (\<lambda>a. match_length_f (cells s a)) (own_addrs self))"
  then obtain a r where ar: "filter (\<lambda>a. match_length_f (cells s a)) (own_addrs self) = a # r"
    by (cases "filter (\<lambda>a. match_length_f (cells s a)) (own_addrs self)") auto
  with many obtain b others where "r = b # others"
    by (cases r) auto
  with ar have
    "filter (\<lambda>a. match_length_f (cells s a)) (own_addrs self) = a # b # others"
    by simp
  then have "filter (\<lambda>a. match_length_f (cells s a)) (map snd (priv_fields self)) = a # b # others"
    by (simp only: own_addrs_def)
  then show ?thesis
    by (simp only: set_match_length_unpack_def list.case)
qed

lemma unpack_many:
  "1 < length (filter (\<lambda>a. match_length_f (cells s a)) (own_addrs self)) \<Longrightarrow>
   unpack self buffer validate s =
     (Inl (ValueError ''Only one field can have match_length set to True''), s)"
  by (simp add: unpack_def set_match_length_unpack_many)

text \<open>
  Claim C7 (with more than one match-length field, every call that resolves the match
  length fails with the schema error) fails on the code. For the message with the two
  match-length fields \<open>left = b"ab"\<close> and \<open>right = b"c"\<close>, construction succeeds and
  \<^verbatim>\<open>unpack\<close> raises the schema error, but \<^verbatim>\<open>pack\<close> raises \<^verbatim>\<open>NameError\<close>, and the
  resolution step of the packing side, \<^verbatim>\<open>_set_match_length_pack\<close>, has no such check:
  it returns normally with the repeat counts 2 and 1.
\<close>

theorem two_match_pack_side_unchecked:
  "(case fst two_built of Inr m \<Rightarrow> True | Inl e \<Rightarrow> False) \<and>
   map match_length_f (own_fields two_inst two_s) = [True, True] \<and>
   fst (unpack two_inst [97, 98, 99] True two_s) =
     Inl (ValueError ''Only one field can have match_length set to True'') \<and>
   fst (pack two_inst two_s) = Inl (NameError ''_set_match_length'') \<and>
   fst (set_match_length_pack two_inst two_s) = Inr () \<and>
   map length_f (own_fields two_inst (snd (set_match_length_pack two_inst two_s))) = [2, 1]"
  by code_simp

section \<open>Fields wider than one unit\<close>

text \<open>
  Claim C3 (each decoded unit goes to the field it belongs to, also for fields with a
  repeat count above 1) fails on the code. In the message with \<open>a\<close> of two unsigned bytes
  and \<open>b\<close> of one, the layout is \<^verbatim>\<open><2BB\<close> and the buffer \<open>[1, 2, 3]\<close> has its size; the
  library decodes the three units 1, 2, 3, and \<^verbatim>\<open>unpack\<close> pairs fields with units one to
  one: \<open>a\<close> receives 1, \<open>b\<close> receives 2, which belongs to \<open>a\<close>, and 3 is dropped.
\<close>

theorem unpack_wide_field_misassigned:
  "struct_p wide_inst wide_s = ''<2BB'' \<and> size_p wide_inst wide_s = Inr 3 \<and>
   struct_unpack (struct_p wide_inst wide_s) [1, 2, 3] = Inr [PInt 1, PInt 2, PInt 3] \<and>
   fst (unpack wide_inst [1, 2, 3] True wide_s) = Inr () \<and>
   map (\<lambda>f. (name_f f, value_f f)) (own_fields wide_inst (snd (unpack wide_inst [1, 2, 3] True wide_s))) =
     [(''a'', PInt 1), (''b'', PInt 2)]"
  by code_simp

section \<open>Instances do not share descriptors\<close>

lemma od_set_addrs: "(n, b) \<in> set (od_set k v d) \<Longrightarrow> b = v \<or> b \<in> snd ` set d"
  by (induction d) (force split: if_splits)+

lemma replace_eq:
  "replace k s = (next_free s, s\<lparr>cells := (cells s)(next_free s := cells s k), next_free := Suc (next_free s)\<rparr>)"
  by (simp add: replace_def alloc_def)

lemma clone_fields_next_free:
  "clone_fields ks d s = (d', s') \<Longrightarrow> next_free s \<le> next_free s'"
proof (induction ks arbitrary: d s)
  case Nil
  then show ?case by simp
next
  case (Cons k ks)
  from Cons.prems Cons.IH show ?case by (fastforce simp: replace_eq)
qed

lemma clone_fields_old:
  "clone_fields ks d s = (d', s') \<Longrightarrow> b < next_free s \<Longrightarrow> cells s' b = cells s b"
proof (induction ks arbitrary: d s)
  case Nil
  then show ?case by simp
next
  case (Cons k ks)
  from Cons.prems Cons.IH[of _ _ ] show ?case by (fastforce simp: replace_eq)
qed

lemma clone_fields_addrs:
  "clone_fields ks d s = (d', s') \<Longrightarrow> (n, b) \<in> set d' \<Longrightarrow>
   b \<in> snd ` set d \<or> (next_free s \<le> b \<and> b < next_free s')"
proof (induction ks arbitrary: d s)
  case Nil
  then show ?case by force
next
  case (Cons k ks)
  let ?s1 = "s\<lparr>cells := (cells s)(next_free s := cells s k), next_free := Suc (next_free s)\<rparr>"
  let ?d1 = "od_set (name_f (cells s k)) (next_free s) d"
  from Cons.prems(1) have cf: "clone_fields ks ?d1 ?s1 = (d', s')" by (simp add: replace_eq)
  from clone_fields_next_free[OF cf] have le: "Suc (next_free s) \<le> next_free s'" by simp
  from Cons.IH[OF cf Cons.prems(2)]
  consider (old) "b \<in> snd ` set ?d1" | (new) "Suc (next_free s) \<le> b \<and> b < next_free s'"
    by auto
  then show ?case
  proof cases
    case old
    then obtain n' where "(n', b) \<in> set ?d1" by force
    from od_set_addrs[OF this] le show ?thesis by auto
  next
    case new
    then show ?thesis by auto
  qed
qed

lemma setattr_frame:
  "b \<notin> set (own_addrs self) \<Longrightarrow> cells (snd (setattr self n v s)) b = cells s b"
  by (auto simp: setattr_def own_addrs_def split: option.splits dest!: map_of_SomeD)
     (metis image_eqI snd_conv)

lemma setattr_next_free: "next_free (snd (setattr self n v s)) = next_free s"
  by (simp add: setattr_def split: option.splits)

lemma set_kwargs_frame:
  "b \<notin> set (own_addrs self) \<Longrightarrow> cells (snd (set_kwargs self kw s)) b = cells s b"
proof (induction kw arbitrary: s)
  case Nil
  then show ?case by simp
next
  case (Cons p kw)
  obtain k w where p: "p = (k, w)" by (cases p)
  from Cons setattr_frame[of b self k w s] show ?case
    by (cases "setattr self k w s"; cases "fst (setattr self k w s)") (auto simp: p)
qed

lemma set_kwargs_next_free: "next_free (snd (set_kwargs self kw s)) = next_free s"
proof (induction kw arbitrary: s)
  case Nil
  then show ?case by simp
next
  case (Cons p kw)
  obtain k w where p: "p = (k, w)" by (cases p)
  from Cons setattr_next_free[of self k w s] show ?case
    by (cases "setattr self k w s"; cases "fst (setattr self k w s)") (auto simp: p)
qed

text \<open>What \<^verbatim>\<open>__init__\<close> allocates: the descriptors of the new instance are new objects, and
  every object that existed before is left as it was.\<close>

lemma init_alloc:
  assumes "fst (init cls kw s) = Inr m"
  shows "set (own_addrs m) \<subseteq> {next_free s ..< next_free (snd (init cls kw s))}"
    and "next_free s \<le> next_free (snd (init cls kw s))"
    and "\<forall>b < next_free s. cells (snd (init cls kw s)) b = cells s b"
proof -
  obtain d s1 where cf: "clone_fields (fields_c cls) [] s = (d, s1)"
    by (cases "clone_fields (fields_c cls) [] s")
  let ?m = "\<lparr>klass = cls, priv_fields = d\<rparr>"
  from assms cf have m: "m = ?m"
    by (auto simp: init_def split: prod.splits sum.splits)
  from assms cf have s': "snd (init cls kw s) = snd (set_kwargs ?m kw s1)"
    by (auto simp: init_def split: prod.splits sum.splits)
  have addrs: "set (own_addrs m) \<subseteq> {next_free s ..< next_free s1}"
    using clone_fields_addrs[OF cf] by (fastforce simp: m own_addrs_def)
  show "set (own_addrs m) \<subseteq> {next_free s ..< next_free (snd (init cls kw s))}"
    using addrs by (simp add: s' set_kwargs_next_free)
  show "next_free s \<le> next_free (snd (init cls kw s))"
    using clone_fields_next_free[OF cf] by (simp add: s' set_kwargs_next_free)
  show "\<forall>b < next_free s. cells (snd (init cls kw s)) b = cells s b"
  proof (intro allI impI)
    fix b assume b: "b < next_free s"
    with addrs have "b \<notin> set (own_addrs ?m)" using m by auto
    from set_kwargs_frame[OF this] clone_fields_old[OF cf b]
    show "cells (snd (init cls kw s)) b = cells s b"
      by (simp add: s')
  qed
qed

lemma set_match_length_unpack_frame:
  assumes "b \<notin> set (own_addrs self)"
  shows "cells (snd (set_match_length_unpack self n s)) b = cells s b"
proof (cases "filter (\<lambda>a. match_length_f (cells s a)) (map snd (priv_fields self))")
  case Nil
  then show ?thesis by (simp add: set_match_length_unpack_def)
next
  case (Cons a as)
  then have "a \<in> set (filter (\<lambda>a. match_length_f (cells s a)) (map snd (priv_fields self)))"
    by simp
  then have "a \<in> set (own_addrs self)" by (simp add: own_addrs_def)
  with assms have "b \<noteq> a" by auto
  with Cons show ?thesis
    by (cases as) (simp_all add: set_match_length_unpack_def Let_def split: sum.splits)
qed

lemma set_match_length_unpack_next_free:
  "next_free (snd (set_match_length_unpack self n s)) = next_free s"
  by (simp add: set_match_length_unpack_def Let_def split: list.splits sum.splits)

lemma unpack_frame:
  assumes "b \<notin> set (own_addrs self)"
  shows "cells (snd (unpack self buffer validate s)) b = cells s b"
proof -
  have "b \<notin> fst ` set (zip (map snd (priv_fields self)) vals)" for vals
    using assms by (auto simp: own_addrs_def dest!: set_zip_leftD)
  then have fr: "cells (assign_values (zip (map snd (priv_fields self)) vals) t) b = cells t b"
    for vals t by (rule assign_values_frame)
  show ?thesis
    using set_match_length_unpack_frame[OF assms, of "int (length buffer)" s]
    by (auto simp: unpack_def Let_def fr split: prod.splits sum.splits)
qed

lemma run_call_frame:
  "b \<notin> set (own_addrs self) \<Longrightarrow> cells (run_call self c s) b = cells s b"
  by (cases c) (simp_all add: setattr_frame pack_store unpack_frame)

lemma run_calls_frame:
  "b \<notin> set (own_addrs self) \<Longrightarrow> cells (run_calls self cs s) b = cells s b"
  by (induction cs arbitrary: s) (simp_all add: run_call_frame)


lemma run_calls_own_fields:
  "set (own_addrs other) \<inter> set (own_addrs self) = {} \<Longrightarrow>
   own_fields other (run_calls self cs s) = own_fields other s"
proof -
  assume "set (own_addrs other) \<inter> set (own_addrs self) = {}"
  then have "\<forall>b \<in> set (own_addrs other). b \<notin> set (own_addrs self)" by blast
  then show ?thesis by (simp add: own_fields_addrs run_calls_frame)
qed

text \<open>
  Claim C10. Two instances of one message type, built one after the other from templates
  that exist in the store, hold descriptors of their own: whatever sequence of field
  assignments, \<^verbatim>\<open>pack\<close> calls and \<^verbatim>\<open>unpack\<close> calls runs on one of them, every descriptor
  of the other instance and every template of the class stays as it was.
\<close>

theorem instances_isolated:
  assumes tpl: "list_all (\<lambda>t. t < next_free s0) (fields_c cls)"
      and A: "fst (init cls kwA s0) = Inr A"
      and B: "fst (init cls kwB (snd (init cls kwA s0))) = Inr B"
  shows "own_fields B (run_calls A cs (snd (init cls kwB (snd (init cls kwA s0))))) =
           own_fields B (snd (init cls kwB (snd (init cls kwA s0)))) \<and>
         own_fields A (run_calls B cs (snd (init cls kwB (snd (init cls kwA s0))))) =
           own_fields A (snd (init cls kwB (snd (init cls kwA s0)))) \<and>
         map (cells (run_calls A cs (snd (init cls kwB (snd (init cls kwA s0)))))) (fields_c cls) =
           map (cells s0) (fields_c cls) \<and>
         map (cells (run_calls B cs (snd (init cls kwB (snd (init cls kwA s0)))))) (fields_c cls) =
           map (cells s0) (fields_c cls)"
proof -
  let ?s1 = "snd (init cls kwA s0)"
  let ?s2 = "snd (init cls kwB ?s1)"
  note a = init_alloc[OF A] and b = init_alloc[OF B]
  have disj: "set (own_addrs B) \<inter> set (own_addrs A) = {}"
    using a(1) b(1) by fastforce
  then have disj': "set (own_addrs A) \<inter> set (own_addrs B) = {}" by blast
  have t0: "cells ?s2 t = cells s0 t" if "t \<in> set (fields_c cls)" for t
  proof -
    from tpl that have "t < next_free s0" by (simp add: list_all_iff)
    with a(2,3) b(3) show ?thesis by (metis less_le_trans)
  qed
  have tA: "cells (run_calls A cs ?s2) t = cells s0 t" if "t \<in> set (fields_c cls)" for t
  proof -
    from tpl that have "t < next_free s0" by (simp add: list_all_iff)
    with a(1) have "t \<notin> set (own_addrs A)" by fastforce
    then show ?thesis by (simp add: run_calls_frame t0[OF that])
  qed
  have tB: "cells (run_calls B cs ?s2) t = cells s0 t" if "t \<in> set (fields_c cls)" for t
  proof -
    from tpl that have "t < next_free s0" by (simp add: list_all_iff)
    with a(2) b(1) have "t \<notin> set (own_addrs B)" by fastforce
    then show ?thesis by (simp add: run_calls_frame t0[OF that])
  qed
  show ?thesis
    using run_calls_own_fields[OF disj] run_calls_own_fields[OF disj'] tA tB by simp
qed

lemma built_inr:
  "(case fst r of Inr m \<Rightarrow> True | Inl e \<Rightarrow> False) \<Longrightarrow>
   fst r = Inr (case fst r of Inr m \<Rightarrow> m | Inl e \<Rightarrow> d)"
  by (cases "fst r") simp_all

theorem instances_isolated_witness:
  "list_all (\<lambda>t. t < next_free hello_store) (fields_c HelloMessage) \<and>
   fst hello_built = Inr hello_inst \<and> fst hello2_built = Inr hello2_inst \<and>
   own_fields hello2_inst
     (run_calls hello_inst [SetAttr ''hello'' (PInt 9), Pack, Unpack [7, 8, 9] True] hello2_s) =
     own_fields hello2_inst hello2_s \<and>
   map (cells (run_calls hello_inst [SetAttr ''hello'' (PInt 9), Pack, Unpack [7, 8, 9] True] hello2_s))
     (fields_c HelloMessage) = map (cells hello_store) (fields_c HelloMessage) \<and>
   map value_f (own_fields hello_inst
     (run_calls hello_inst [SetAttr ''hello'' (PInt 9), Pack, Unpack [7, 8, 9] True] hello2_s)) =
     [PInt 7, PInt 8, PBytes [9]]"
proof -
  have h1: "list_all (\<lambda>t. t < next_free hello_store) (fields_c HelloMessage)" by code_simp
  have "case fst hello_built of Inr m \<Rightarrow> True | Inl e \<Rightarrow> False" by code_simp
  then have h2: "fst hello_built = Inr hello_inst"
    unfolding hello_inst_def by (rule built_inr)
  have "case fst hello2_built of Inr m \<Rightarrow> True | Inl e \<Rightarrow> False" by code_simp
  then have h3: "fst hello2_built = Inr hello2_inst"
    unfolding hello2_inst_def by (rule built_inr)
  have s1: "snd (init HelloMessage [(''world'', PInt 1), (''payload'', PBytes [104, 105])] hello_store) = hello_s"
    by (simp add: hello_s_def hello_built_def)
  have s2: "snd (init HelloMessage [] hello_s) = hello2_s"
    by (simp add: hello2_s_def hello2_built_def)
  have A: "fst (init HelloMessage [(''world'', PInt 1), (''payload'', PBytes [104, 105])] hello_store) = Inr hello_inst"
    using h2 by (simp add: hello_built_def)
  have B: "fst (init HelloMessage [] (snd (init HelloMessage [(''world'', PInt 1), (''payload'', PBytes [104, 105])] hello_store))) = Inr hello2_inst"
    using h3 by (simp add: hello2_built_def s1)
  have v: "map value_f (own_fields hello_inst
     (run_calls hello_inst [SetAttr ''hello'' (PInt 9), Pack, Unpack [7, 8, 9] True] hello2_s)) =
     [PInt 7, PInt 8, PBytes [9]]" by code_simp
  from instances_isolated[OF h1 A B, of "[SetAttr ''hello'' (PInt 9), Pack, Unpack [7, 8, 9] True]"]
  show ?thesis using h1 h2 h3 v by (simp add: s1 s2)
qed

section \<open>Decoding fields of one value each\<close>

lemma total_size_Cons [simp]: "total_size ((n, c) # ts) = n * unit_size c + total_size ts"
  by (simp add: total_size_def)

lemma total_size_Nil [simp]: "total_size [] = 0"
  by (simp add: total_size_def)

lemma total_size_append [simp]: "total_size (us @ vs) = total_size us + total_size vs"
  by (simp add: total_size_def)

lemma unit_size_s [simp]: "unit_size CHR ''s'' = 1"
  by (simp add: unit_size_def code_size_def code_table_def)

lemma unit_size_p [simp]: "unit_size CHR ''p'' = 1"
  by (simp add: unit_size_def code_size_def code_table_def)

lemma item_values_single:
  assumes "single_tok (n, c)" and "n * unit_size c \<le> length buf"
  shows "\<exists>v. item_values n c (take (n * unit_size c) buf) = Inr [v]"
proof -
  from assms(1) have c: "code_size c \<noteq> None" "c \<noteq> CHR ''x''"
    by (auto simp: single_tok_def)
  show ?thesis
  proof (cases "c = CHR ''s''")
    case True
    then show ?thesis by (simp add: item_values_def)
  next
    case ns: False
    show ?thesis
    proof (cases "c = CHR ''p''")
      case True
      with assms have "1 \<le> n" "n \<le> length buf" by (auto simp: single_tok_def)
      then obtain b bs where "take n buf = b # bs"
        by (cases buf; cases n) auto
      with True show ?thesis by (simp add: item_values_def)
    next
      case False
      with ns assms(1) have "n = 1" by (auto simp: single_tok_def)
      with ns False c show ?thesis by (simp add: item_values_def)
    qed
  qed
qed

lemma unpack_codes_single:
  "list_all single_tok ts \<Longrightarrow> total_size ts \<le> length buf \<Longrightarrow>
   \<exists>vals. unpack_codes ts buf = Inr vals \<and> length vals = length ts"
proof (induction ts arbitrary: buf)
  case Nil
  then show ?case by simp
next
  case (Cons t ts)
  obtain n c where t: "t = (n, c)" by (cases t)
  from Cons.prems t have st: "single_tok (n, c)" and le: "n * unit_size c \<le> length buf"
    and rest: "list_all single_tok ts" "total_size ts \<le> length (drop (n * unit_size c) buf)"
    by auto
  from item_values_single[OF st le] obtain v where
    v: "item_values n c (take (n * unit_size c) buf) = Inr [v]" by blast
  from Cons.IH[OF rest] obtain ws where
    "unpack_codes ts (drop (n * unit_size c) buf) = Inr ws" "length ws = length ts" by blast
  with v t show ?case by simp
qed

lemma unpack_codes_append:
  "unpack_codes (us @ ws) buf =
     (case unpack_codes us buf of
        Inl e \<Rightarrow> Inl e
      | Inr a \<Rightarrow>
          (case unpack_codes ws (drop (total_size us) buf) of
             Inl e \<Rightarrow> Inl e
           | Inr b \<Rightarrow> Inr (a @ b)))"
proof (induction us arbitrary: buf)
  case Nil
  then show ?case by (simp split: sum.splits)
next
  case (Cons t us)
  obtain n c where t: "t = (n, c)" by (cases t)
  show ?case
    by (simp add: t Cons.IH add.commute split: sum.splits)
qed

text \<open>The value decoded for a byte-string item among items of one value each.\<close>

lemma unpack_codes_bytes_at:
  assumes "list_all single_tok (us @ (n, CHR ''s'') # vs)"
      and "total_size (us @ (n, CHR ''s'') # vs) \<le> length buf"
  shows "\<exists>vals. unpack_codes (us @ (n, CHR ''s'') # vs) buf = Inr vals \<and>
           length vals = length us + 1 + length vs \<and>
           vals ! length us = PBytes (take n (drop (total_size us) buf))"
proof -
  from assms have u: "list_all single_tok us" "total_size us \<le> length buf"
    and v: "list_all single_tok vs" "total_size vs \<le> length (drop n (drop (total_size us) buf))"
    by auto
  from unpack_codes_single[OF u] obtain a where
    a: "unpack_codes us buf = Inr a" "length a = length us" by blast
  from unpack_codes_single[OF v] obtain b where
    b: "unpack_codes vs (drop n (drop (total_size us) buf)) = Inr b" "length b = length vs" by blast
  have "unpack_codes (us @ (n, CHR ''s'') # vs) buf =
          Inr (a @ PBytes (take n (drop (total_size us) buf)) # b)"
    using a b by (simp add: unpack_codes_append item_values_def)
  with a(2) b(2) show ?thesis by (simp add: nth_append)
qed

section \<open>The match-length field of a byte string\<close>

text \<open>The list of addresses splits around the only match-length field.\<close>

lemma single_match_split:
  assumes one: "filter P xs = [a]" and i: "i < length xs" "xs ! i = a"
  shows "xs = take i xs @ a # drop (Suc i) xs"
    and "\<forall>b \<in> set (take i xs). \<not> P b"
    and "\<forall>b \<in> set (drop (Suc i) xs). \<not> P b"
    and "P a"
proof -
  show split: "xs = take i xs @ a # drop (Suc i) xs"
    using id_take_nth_drop[OF i(1)] i(2) by simp
  have "filter P (take i xs @ a # drop (Suc i) xs) = [a]" using one split by simp
  moreover have pa: "P a" using single_match(2)[OF one] .
  ultimately have "filter P (take i xs) @ a # filter P (drop (Suc i) xs) = [a]" by simp
  then have "filter P (take i xs) = []" and "filter P (drop (Suc i) xs) = []"
    by (simp_all add: append_eq_Cons_conv)
  then show "\<forall>b \<in> set (take i xs). \<not> P b" and "\<forall>b \<in> set (drop (Suc i) xs). \<not> P b"
    by (simp_all add: filter_empty_conv)
  show "P a" by (rule pa)
qed

lemma set_match_length_pack_loop_none:
  "\<forall>b \<in> set xs. \<not> match_length_f (cells s b) \<Longrightarrow> set_match_length_pack_loop xs s = (Inr (), s)"
  by (induction xs arbitrary: s) simp_all

lemma set_match_length_pack_loop_append:
  "\<forall>b \<in> set us. \<not> match_length_f (cells s b) \<Longrightarrow>
   set_match_length_pack_loop (us @ vs) s = set_match_length_pack_loop vs s"
  by (induction us arbitrary: s) simp_all

text \<open>\<^verbatim>\<open>_set_match_length_pack\<close> with one match-length field holding a byte string.\<close>

lemma set_match_length_pack_single:
  assumes one: "filter (\<lambda>a. match_length_f (cells s a)) (own_addrs self) = [a]"
      and val: "value_f (cells s a) = PBytes payload"
  shows "set_match_length_pack self s =
           (Inr (), upd_cell a (\<lambda>f. f\<lparr>length_f := int (length payload)\<rparr>) s)"
proof -
  let ?P = "\<lambda>a. match_length_f (cells s a)"
  let ?s1 = "upd_cell a (\<lambda>f. f\<lparr>length_f := int (length payload)\<rparr>) s"
  from single_match(1)[OF one] obtain i where i: "i < length (own_addrs self)" "own_addrs self ! i = a"
    by (auto simp: in_set_conv_nth)
  note sp = single_match_split[OF one i]
  let ?us = "take i (own_addrs self)" and ?vs = "drop (Suc i) (own_addrs self)"
  have "\<forall>b \<in> set ?vs. \<not> match_length_f (cells ?s1 b)" using sp(3) by simp
  then have vs: "set_match_length_pack_loop ?vs ?s1 = (Inr (), ?s1)"
    by (rule set_match_length_pack_loop_none)
  have "set_match_length_pack_loop (?us @ a # ?vs) s = set_match_length_pack_loop (a # ?vs) s"
    using sp(2) by (rule set_match_length_pack_loop_append)
  also have "\<dots> = (Inr (), ?s1)" using sp(4) val vs by simp
  finally show ?thesis
    using sp(1) by (simp add: set_match_length_pack_def own_addrs_def[symmetric])
qed

lemma assign_values_append:
  "assign_values (xs @ ys) s = assign_values ys (assign_values xs s)"
  by (induction xs s rule: assign_values.induct) simp_all

lemma assign_values_at:
  assumes "a \<notin> set us" "a \<notin> set vs" "length us < length vals"
  shows "value_f (cells (assign_values (zip (us @ a # vs) vals) s) a) = vals ! length us"
proof -
  let ?k = "length us"
  from assms(3) have vals: "vals = take ?k vals @ vals ! ?k # drop (Suc ?k) vals"
    by (rule id_take_nth_drop)
  have "zip (us @ a # vs) vals =
          zip us (take ?k vals) @ (a, vals ! ?k) # zip vs (drop (Suc ?k) vals)"
    using assms(3) by (subst vals) (simp add: zip_append)
  moreover have "a \<notin> fst ` set (zip vs (drop (Suc ?k) vals))"
    using assms(2) by (auto dest: set_zip_leftD)
  ultimately show ?thesis
    by (simp add: assign_values_append assign_values_frame)
qed

lemma spec_size_append [simp]: "spec_size (xs @ ys) = spec_size xs + spec_size ys"
  by (simp add: spec_size_def)

lemma spec_size_Cons [simp]: "spec_size (f # fs) = field_bytes f + spec_size fs"
  by (simp add: spec_size_def)

lemma spec_size_Nil [simp]: "spec_size [] = 0"
  by (simp add: spec_size_def)

lemma static_size_plain:
  "\<forall>b \<in> set us. \<not> match_length_f (cells s b) \<Longrightarrow>
   static_size (map (cells s) us) = spec_size (map (cells s) us)"
  by (induction us) (simp_all add: static_size_def)

lemma static_size_append:
  "static_size (xs @ ys) = static_size xs + static_size ys"
  by (simp add: static_size_def)

lemma static_size_split:
  assumes "\<forall>b \<in> set us. \<not> match_length_f (cells s b)"
      and "\<forall>b \<in> set vs. \<not> match_length_f (cells s b)"
      and "match_length_f (cells s a)"
  shows "static_size (map (cells s) (us @ a # vs)) =
           spec_size (map (cells s) us) + spec_size (map (cells s) vs)"
proof -
  have "static_size (map (cells s) (us @ a # vs)) =
          static_size (map (cells s) us) + static_size (map (cells s) (a # vs))"
    by (simp add: static_size_append)
  also have "static_size (map (cells s) (a # vs)) = static_size (map (cells s) vs)"
    using assms(3) by (simp add: static_size_def)
  finally show ?thesis
    using static_size_plain[OF assms(1)] static_size_plain[OF assms(2)] by simp
qed

lemma map_cells_upd_other:
  "a \<notin> set us \<Longrightarrow> map (cells (upd_cell a g s)) us = map (cells s) us"
  by (induction us) auto

lemma single_value_wf: "single_value f \<Longrightarrow> wf_field f"
  by (auto simp: single_value_def single_tok_def wf_field_def wf_code_def split: list.splits)

lemma single_value_tok: "single_value f \<Longrightarrow> single_tok (nat (length_f f), hd (struct_f f))"
  by (auto simp: single_value_def split: list.splits)

lemma single_tok_s: "single_tok (n, CHR ''s'')"
  by (simp add: single_tok_def code_size_def code_table_def)

lemma upd_cell_same:
  "length_f (cells s a) = n \<Longrightarrow>
   upd_cell a (\<lambda>f. f\<lparr>length_f := n\<rparr>) (upd_cell a (\<lambda>f. f\<lparr>length_f := 0\<rparr>) s) = s"
  by (cases s) (auto simp: upd_cell_def fun_eq_iff)

section \<open>The bytes of the match-length field\<close>

text \<open>
  Claim C4 as stated fails where the match-length field is not the last one. In the message
  whose match-length byte string \<open>payload = b"hi"\<close> comes first and is followed by one
  byte, the size after resolution is 1 + 2 = 3, and unpacking the three bytes \<open>abc\<close> gives
  \<open>payload\<close> the first two bytes \<open>ab\<close>, not the trailing two.
\<close>

theorem leading_match_field_not_trailing:
  "filter (\<lambda>a. match_length_f (cells lead_s a)) (own_addrs lead_inst) = [2] \<and>
   struct_f (cells lead_s 2) = ''s'' \<and> value_f (cells lead_s 2) = PBytes [104, 105] \<and>
   static_size (own_fields lead_inst lead_s) = 1 \<and>
   size_p lead_inst (snd (set_match_length_pack lead_inst lead_s)) = Inr 3 \<and>
   fst (unpack lead_inst [97, 98, 99] True (snd (set_match_length_pack lead_inst lead_s))) = Inr () \<and>
   value_f (cells (snd (unpack lead_inst [97, 98, 99] True (snd (set_match_length_pack lead_inst lead_s)))) 2) =
     PBytes [97, 98] \<and>
   value_f (cells (snd (unpack lead_inst [97, 98, 99] True (snd (set_match_length_pack lead_inst lead_s)))) 2) \<noteq>
     PBytes (drop (length [97, 98, 99 :: byte] - length [104, 105 :: byte]) [97, 98, 99])"
  by code_simp

text \<open>
  Claim C4, amended. Let exactly one field be match-length, a byte string holding
  \<open>payload\<close>, and let every other field decode to one value. After the resolution of the
  packing side the size is the aggregate size of the other fields plus the length of
  \<open>payload\<close>; unpacking a buffer of that size succeeds and gives the match-length field the
  bytes of that length found at its place in the layout, after the bytes of the fields
  declared before it. These are the trailing bytes when the field is declared last.
\<close>

theorem match_length_bytes_at_offset:
  assumes one: "filter (\<lambda>a. match_length_f (cells s a)) (own_addrs self) = [a]"
      and i: "i < length (own_addrs self)" "own_addrs self ! i = a"
      and code: "struct_f (cells s a) = ''s''"
      and val: "value_f (cells s a) = PBytes payload"
      and others: "list_all (\<lambda>f. match_length_f f \<or> single_value f) (own_fields self s)"
      and bound: "static_size (own_fields self s) + length payload \<le> PY_SSIZE_T_MAX"
      and len: "length buffer = static_size (own_fields self s) + length payload"
  shows "fst (set_match_length_pack self s) = Inr () \<and>
         size_p self (snd (set_match_length_pack self s)) =
           Inr (static_size (own_fields self s) + length payload) \<and>
         fst (unpack self buffer False (snd (set_match_length_pack self s))) = Inr () \<and>
         value_f (cells (snd (unpack self buffer validate (snd (set_match_length_pack self s)))) a) =
           PBytes (take (length payload) (drop (spec_size (take i (own_fields self s))) buffer)) \<and>
         (Suc i = length (own_addrs self) \<longrightarrow>
            value_f (cells (snd (unpack self buffer validate (snd (set_match_length_pack self s)))) a) =
              PBytes (drop (length buffer - length payload) buffer))"
proof -
  let ?xs = "own_addrs self"
  let ?us = "take i ?xs" and ?vs = "drop (Suc i) ?xs"
  let ?m = "length payload"
  let ?st = "static_size (own_fields self s)"
  let ?s1 = "upd_cell a (\<lambda>f. f\<lparr>length_f := int ?m\<rparr>) s"
  let ?tok = "\<lambda>f. (nat (length_f f), hd (struct_f f))"
  note sp = single_match_split[OF one i]
  have a_us: "a \<notin> set ?us" and a_vs: "a \<notin> set ?vs" using sp(2,3,4) by auto
  have pk: "set_match_length_pack self s = (Inr (), ?s1)"
    by (rule set_match_length_pack_single[OF one val])
  have sv: "single_value (cells s b)" if "b \<in> set ?us \<or> b \<in> set ?vs" for b
  proof -
    from that have "b \<in> set ?xs" by (auto dest: in_set_takeD in_set_dropD)
    moreover from that sp(2,3) have "\<not> match_length_f (cells s b)" by auto
    ultimately show ?thesis using others by (auto simp: own_fields_addrs list_all_iff)
  qed
  have fs1: "own_fields self ?s1 =
               map (cells s) ?us @ (cells s a)\<lparr>length_f := int ?m\<rparr> # map (cells s) ?vs"
  proof -
    have "own_fields self ?s1 = map (cells ?s1) (?us @ a # ?vs)"
      using sp(1) by (simp add: own_fields_addrs)
    then show ?thesis
      using a_us a_vs by (simp add: map_cells_upd_other del: cells_upd_cell) simp
  qed
  have st: "?st = spec_size (map (cells s) ?us) + spec_size (map (cells s) ?vs)"
  proof -
    have "?st = static_size (map (cells s) (?us @ a # ?vs))"
      using sp(1) by (simp add: own_fields_addrs)
    then show ?thesis using static_size_split[OF sp(2) sp(3) sp(4)] by simp
  qed
  have fb: "field_bytes ((cells s a)\<lparr>length_f := int ?m\<rparr>) = ?m"
    using code by (simp add: field_bytes_def)
  have sz1: "spec_size (own_fields self ?s1) = ?st + ?m"
    by (simp add: fs1 st fb)
  have wf1: "\<forall>f \<in> set (own_fields self ?s1). wf_field f"
    using sv code single_value_wf
    by (auto simp: fs1 wf_field_def wf_code_def code_size_def code_table_def)
  have size1: "size_p self ?s1 = Inr (?st + ?m)"
    using size_p_fields[OF wf1] bound sz1 by simp
  have "(\<lambda>b. match_length_f (cells ?s1 b)) = (\<lambda>b. match_length_f (cells s b))"
    by (rule ext) auto
  then have one1: "filter (\<lambda>b. match_length_f (cells ?s1 b)) ?xs = [a]"
    using one by (simp only:)
  have codes1: "list_all wf_code (own_fields self ?s1)"
    using wf1 by (simp add: list_all_iff wf_field_def)
  have lens1: "list_all (\<lambda>f. match_length_f f \<or> 0 \<le> length_f f) (own_fields self ?s1)"
    using wf1 by (simp add: list_all_iff wf_field_def)
  have st1: "static_size (own_fields self ?s1) = ?st"
  proof -
    have "static_size (own_fields self ?s1) =
            static_size (map (cells s) ?us) + static_size (map (cells s) ?vs)"
      using sp(4) by (simp add: fs1 static_size_append) (simp add: static_size_def)
    then show ?thesis
      using static_size_plain[OF sp(2)] static_size_plain[OF sp(3)] st by simp
  qed
  have bound1: "static_size (own_fields self ?s1) \<le> PY_SSIZE_T_MAX"
    using bound st1 by simp
  have res: "set_match_length_unpack self (int (length buffer)) ?s1 = (Inr (), ?s1)"
  proof -
    have "int (length buffer) - int (static_size (own_fields self ?s1)) = int ?m"
      using len st1 by simp
    moreover have "length_f (cells ?s1 a) = int ?m" by simp
    ultimately show ?thesis
      using set_match_length_unpack_single[OF one1 codes1 lens1 bound1, of "int (length buffer)"]
      by (simp only: upd_cell_same)
  qed
  let ?ts = "map ?tok (map (cells s) ?us) @ (?m, CHR ''s'') # map ?tok (map (cells s) ?vs)"
  have ts: "map ?tok (own_fields self ?s1) = ?ts"
    using code by (simp add: fs1)
  have prep: "prepare (struct_p self ?s1) = Inr ?ts"
    using prepare_fields[OF wf1] bound sz1 ts by (simp add: struct_p_def)
  have tot: "total_size ?ts = length buffer"
    using total_size_fields[of "own_fields self ?s1"] sz1 len ts by simp
  have single_us: "list_all single_tok (map ?tok (map (cells s) ?us))"
    using sv single_value_tok by (simp add: list_all_iff)
  have single_vs: "list_all single_tok (map ?tok (map (cells s) ?vs))"
    using sv single_value_tok by (simp add: list_all_iff)
  have single: "list_all single_tok ?ts"
    using single_us single_vs single_tok_s[of ?m] by simp
  have tle: "total_size ?ts \<le> length buffer" using tot by simp
  from unpack_codes_bytes_at[OF single tle] obtain vals where
    dec: "unpack_codes ?ts buffer = Inr vals"
    and nvals: "length vals = length (map ?tok (map (cells s) ?us)) + 1 + length (map ?tok (map (cells s) ?vs))"
    and at: "vals ! length (map ?tok (map (cells s) ?us)) =
               PBytes (take ?m (drop (total_size (map ?tok (map (cells s) ?us))) buffer))"
    by blast
  have lus: "length ?us = i" using i(1) by simp
  have off: "total_size (map ?tok (map (cells s) ?us)) = spec_size (take i (own_fields self s))"
  proof -
    have "total_size (map ?tok (map (cells s) ?us)) = spec_size (map (cells s) ?us)"
      by (rule total_size_fields)
    then show ?thesis by (simp only: own_fields_addrs take_map)
  qed
  have su: "struct_unpack (struct_p self ?s1) buffer = Inr vals"
    using prep tot dec by (simp add: struct_unpack_def)
  have un: "unpack self buffer v ?s1 =
              (if v \<and> \<not> is_valid (klass self) (priv_fields self) (assign_values (zip ?xs vals) ?s1)
               then Inl (ValueError ''Failed to validate instance'') else Inr (),
               assign_values (zip ?xs vals) ?s1)" for v
    using res su by (simp add: unpack_def own_addrs_def Let_def)
  have "value_f (cells (assign_values (zip (?us @ a # ?vs) vals) ?s1) a) = vals ! length ?us"
    using a_us a_vs nvals lus by (intro assign_values_at) simp_all
  then have va: "value_f (cells (assign_values (zip ?xs vals) ?s1) a) =
                   PBytes (take ?m (drop (spec_size (take i (own_fields self s))) buffer))"
    using sp(1) at off lus by simp
  have last: "take ?m (drop (spec_size (take i (own_fields self s))) buffer) =
                drop (length buffer - ?m) buffer" if "Suc i = length ?xs"
  proof -
    from that have "?vs = []" by simp
    with st have "?st = spec_size (take i (own_fields self s))"
      by (simp add: own_fields_addrs take_map)
    with len show ?thesis by simp
  qed
  show ?thesis
    using size1 va last by (simp add: pk un)
qed


theorem match_length_bytes_at_offset_witness:
  "filter (\<lambda>a. match_length_f (cells hello_s a)) (own_addrs hello_inst) = [5] \<and>
   (2 :: nat) < length (own_addrs hello_inst) \<and> own_addrs hello_inst ! 2 = 5 \<and>
   struct_f (cells hello_s 5) = ''s'' \<and> value_f (cells hello_s 5) = PBytes [104, 105] \<and>
   list_all (\<lambda>f. match_length_f f \<or> single_value f) (own_fields hello_inst hello_s) \<and>
   static_size (own_fields hello_inst hello_s) + length [104, 105 :: byte] \<le> PY_SSIZE_T_MAX \<and>
   length [9, 8, 7, 6 :: byte] = static_size (own_fields hello_inst hello_s) + length [104, 105 :: byte] \<and>
   size_p hello_inst (snd (set_match_length_pack hello_inst hello_s)) = Inr 4 \<and>
   fst (unpack hello_inst [9, 8, 7, 6] False (snd (set_match_length_pack hello_inst hello_s))) = Inr () \<and>
   value_f (cells (snd (unpack hello_inst [9, 8, 7, 6] True (snd (set_match_length_pack hello_inst hello_s)))) 5) =
     PBytes [7, 6]"
proof -
  have h1: "filter (\<lambda>a. match_length_f (cells hello_s a)) (own_addrs hello_inst) = [5]"
    by code_simp
  have h2: "(2 :: nat) < length (own_addrs hello_inst)" by code_simp
  have h3: "own_addrs hello_inst ! 2 = 5" by code_simp
  have h4: "struct_f (cells hello_s 5) = ''s''" by code_simp
  have h5: "value_f (cells hello_s 5) = PBytes [104, 105]" by code_simp
  have h6: "list_all (\<lambda>f. match_length_f f \<or> single_value f) (own_fields hello_inst hello_s)"
    by code_simp
  have st: "static_size (own_fields hello_inst hello_s) = 2" by code_simp
  have h7: "static_size (own_fields hello_inst hello_s) + length [104, 105 :: byte] \<le> PY_SSIZE_T_MAX"
    by (simp add: st PY_SSIZE_T_MAX_def)
  have h8: "length [9, 8, 7, 6 :: byte] = static_size (own_fields hello_inst hello_s) + length [104, 105 :: byte]"
    by (simp add: st)
  have n: "length (own_addrs hello_inst) = 3" by code_simp
  have off: "spec_size (take 2 (own_fields hello_inst hello_s)) = 2" by code_simp
  note th = match_length_bytes_at_offset[OF h1 h2 h3 h4 h5 h6 h7 h8]
  from th[of False] have a:
    "size_p hello_inst (snd (set_match_length_pack hello_inst hello_s)) = Inr 4"
    "fst (unpack hello_inst [9, 8, 7, 6] False (snd (set_match_length_pack hello_inst hello_s))) = Inr ()"
    by (simp_all add: st)
  from th[of True] have b:
    "value_f (cells (snd (unpack hello_inst [9, 8, 7, 6] True (snd (set_match_length_pack hello_inst hello_s)))) 5) =
       PBytes [7, 6]"
    by (simp add: n off)
  from h1 h2 h3 h4 h5 h6 h7 h8 a b show ?thesis by blast
qed

section \<open>Construction\<close>

text \<open>Construction succeeds when every keyword is a field name, whatever the flags of the
  fields; the descriptors it creates lie at distinct addresses.\<close>

lemma set_kwargs_known:
  "\<forall>k \<in> fst ` set kw. map_of (priv_fields self) k \<noteq> None \<Longrightarrow>
   fst (set_kwargs self kw s) = Inr ()"
proof (induction kw arbitrary: s)
  case Nil
  then show ?case by simp
next
  case (Cons p kw)
  obtain k w where p: "p = (k, w)" by (cases p)
  from Cons.prems p obtain a where "map_of (priv_fields self) k = Some a" by auto
  moreover from Cons.prems have "\<forall>k \<in> fst ` set kw. map_of (priv_fields self) k \<noteq> None" by simp
  ultimately show ?case using Cons.IH by (simp add: p setattr_def)
qed

lemma init_no_kwargs: "\<exists>m. fst (init cls [] s) = Inr m"
  by (simp add: init_def split: prod.splits)

lemma od_set_distinct:
  "distinct (map snd d) \<Longrightarrow> v \<notin> snd ` set d \<Longrightarrow> distinct (map snd (od_set k v d))"
proof (induction d)
  case Nil
  then show ?case by simp
next
  case (Cons p d)
  obtain k' v' where p: "p = (k', v')" by (cases p)
  show ?case
  proof (cases "k = k'")
    case True
    with Cons.prems p show ?thesis by auto
  next
    case False
    from Cons.prems p have d: "distinct (map snd d)" "v \<notin> snd ` set d" "v' \<notin> snd ` set d" "v \<noteq> v'"
      by auto
    have "v' \<notin> snd ` set (od_set k v d)"
      using od_set_addrs[of _ v' k v d] d(3,4) by (auto simp: image_iff)
    with Cons.IH[OF d(1,2)] False p show ?thesis by simp
  qed
qed

lemma clone_fields_distinct:
  "clone_fields ks d s = (d', s') \<Longrightarrow> distinct (map snd d) \<Longrightarrow>
   \<forall>b \<in> snd ` set d. b < next_free s \<Longrightarrow> distinct (map snd d')"
proof (induction ks arbitrary: d s)
  case Nil
  then show ?case by simp
next
  case (Cons k ks)
  let ?s1 = "s\<lparr>cells := (cells s)(next_free s := cells s k), next_free := Suc (next_free s)\<rparr>"
  let ?d1 = "od_set (name_f (cells s k)) (next_free s) d"
  from Cons.prems(1) have cf: "clone_fields ks ?d1 ?s1 = (d', s')" by (simp add: replace_eq)
  from Cons.prems(3) have fresh: "next_free s \<notin> snd ` set d" by auto
  have d1: "distinct (map snd ?d1)" by (rule od_set_distinct[OF Cons.prems(2) fresh])
  have "\<forall>b \<in> snd ` set ?d1. b < next_free ?s1"
  proof
    fix b assume "b \<in> snd ` set ?d1"
    then obtain n where "(n, b) \<in> set ?d1" by force
    from od_set_addrs[OF this] Cons.prems(3) show "b < next_free ?s1" by auto
  qed
  from Cons.IH[OF cf d1 this] show ?case .
qed

lemma init_distinct:
  assumes "fst (init cls kw s) = Inr m"
  shows "distinct (own_addrs m)"
proof -
  obtain d s1 where cf: "clone_fields (fields_c cls) [] s = (d, s1)"
    by (cases "clone_fields (fields_c cls) [] s")
  from assms cf have "m = \<lparr>klass = cls, priv_fields = d\<rparr>"
    by (auto simp: init_def split: prod.splits sum.splits)
  with clone_fields_distinct[OF cf] show ?thesis by (simp add: own_addrs_def)
qed

section \<open>Buffers of the wrong size\<close>

text \<open>Without a match-length field, a buffer whose length is not the size of the layout is
  rejected by the struct library, and the store is left as it was.\<close>

lemma unpack_wrong_size:
  assumes none: "filter (\<lambda>a. match_length_f (cells s a)) (own_addrs self) = []"
      and wf: "list_all wf_field (own_fields self s)"
      and len: "length buffer \<noteq> spec_size (own_fields self s)"
  shows "unpack self buffer validate s = (Inl StructError, s)"
proof -
  from none have res: "set_match_length_unpack self (int (length buffer)) s = (Inr (), s)"
    by (simp add: set_match_length_unpack_def own_addrs_def)
  from wf have "\<forall>f \<in> set (own_fields self s). wf_field f" by (simp add: list_all_iff)
  from prepare_fields[OF this] len
  have "struct_unpack (struct_p self s) buffer = Inl StructError"
    by (simp add: struct_unpack_def struct_p_def total_size_fields)
  with res show ?thesis by (simp add: unpack_def)
qed

end
